theory Spec2Isabelle
  imports Main "HOL-Library.Multiset"
begin

section \<open>Python strings and the path functions of the standard library\<close>

text \<open>
  A Python \<open>str\<close> is a sequence of Unicode code points, and \<open>len\<close> counts code points.
  The box-drawing characters of \<open>create_ascii_box\<close> lie outside the 8-bit range of
  \<^typ>\<open>char\<close>, so a string is modelled as a list of code points (natural numbers); an
  ASCII literal is written \<open>ustr ''abc''\<close>.
\<close>

type_synonym str = "nat list"

abbreviation ustr :: "string \<Rightarrow> str" where
  "ustr cs \<equiv> map of_char cs"

abbreviation nl :: nat where "nl \<equiv> 10"
abbreviation space :: nat where "space \<equiv> 32"
abbreviation sep :: nat where "sep \<equiv> 47"
abbreviation extsep :: nat where "extsep \<equiv> 46"

text \<open>
  \<open>str.lower()\<close> and \<open>str.upper()\<close>, on the ASCII letters. Code points beyond ASCII are
  left as they are; the case mapping of full Unicode is not part of this model.
\<close>

definition lower_cp :: "nat \<Rightarrow> nat" where
  "lower_cp c = (if 65 \<le> c \<and> c \<le> 90 then c + 32 else c)"

definition upper_cp :: "nat \<Rightarrow> nat" where
  "upper_cp c = (if 97 \<le> c \<and> c \<le> 122 then c - 32 else c)"

definition lower :: "str \<Rightarrow> str" where
  "lower s = map lower_cp s"

definition upper :: "str \<Rightarrow> str" where
  "upper s = map upper_cp s"

text \<open>\<open>s * n\<close> for a string and an integer: the empty string when \<open>n\<close> is negative.\<close>

definition str_mul :: "str \<Rightarrow> int \<Rightarrow> str" where
  "str_mul s n = concat (replicate (nat n) s)"

text \<open>\<open>s.rfind(c)\<close> for a single character: the highest index of \<open>c\<close>, or \<open>-1\<close>.\<close>

definition rfind :: "str \<Rightarrow> nat \<Rightarrow> int" where
  "rfind s c =
     (if c \<in> set s
      then int (length s) - 1 - int (length (takeWhile (\<lambda>x. x \<noteq> c) (rev s)))
      else - 1)"

text \<open>
  \<open>os.path.splitext\<close> (POSIX): the extension starts at the last dot of the last path
  component, unless that component has only dots before it.
\<close>

definition splitext :: "str \<Rightarrow> str \<times> str" where
  "splitext p =
     (let sepIndex = rfind p sep;
          dotIndex = rfind p extsep
      in if dotIndex > sepIndex \<and>
            list_ex (\<lambda>c. c \<noteq> extsep) (drop (nat (sepIndex + 1)) (take (nat dotIndex) p))
         then (take (nat dotIndex) p, drop (nat dotIndex) p)
         else (p, []))"

text \<open>\<open>os.path.basename\<close>, \<open>os.path.dirname\<close> and the two-argument \<open>os.path.join\<close> (POSIX).\<close>

definition basename :: "str \<Rightarrow> str" where
  "basename p = drop (nat (rfind p sep + 1)) p"

definition dirname :: "str \<Rightarrow> str" where
  "dirname p =
     (let head = take (nat (rfind p sep + 1)) p
      in if head \<noteq> [] \<and> head \<noteq> replicate (length head) sep
         then rev (dropWhile (\<lambda>c. c = sep) (rev head))
         else head)"

definition join :: "str \<Rightarrow> str \<Rightarrow> str" where
  "join a b =
     (if b \<noteq> [] \<and> hd b = sep then b
      else if a = [] \<or> last a = sep then a @ b
      else a @ [sep] @ b)"

text \<open>
  \<open>s.split('\n')\<close>: the pieces between the newlines. A text made of \<open>k\<close>
  newline-terminated lines splits into those \<open>k\<close> lines and a final empty piece.
\<close>

fun split_nl_acc :: "str \<Rightarrow> str \<Rightarrow> str list" where
  "split_nl_acc cur [] = [cur]"
| "split_nl_acc cur (c # cs) =
     (if c = nl then cur # split_nl_acc [] cs else split_nl_acc (cur @ [c]) cs)"

definition split_nl :: "str \<Rightarrow> str list" where
  "split_nl s = split_nl_acc [] s"


section \<open>The extension registry\<close>

definition lang_extensions :: "(str \<times> str list) list" where
  "lang_extensions =
    [(ustr ''Python'', [ustr ''.py'']),
     (ustr ''Rust'', [ustr ''.rs'']),
     (ustr ''JavaScript'', [ustr ''.js'', ustr ''.jsx'']),
     (ustr ''TypeScript'', [ustr ''.ts'', ustr ''.tsx'']),
     (ustr ''Java'', [ustr ''.java'']),
     (ustr ''C++'', [ustr ''.cpp'', ustr ''.hpp'', ustr ''.cc'', ustr ''.cxx'', ustr ''.h'', ustr ''.hh'']),
     (ustr ''C'', [ustr ''.c'', ustr ''.h'']),
     (ustr ''Go'', [ustr ''.go'']),
     (ustr ''Ruby'', [ustr ''.rb'']),
     (ustr ''PHP'', [ustr ''.php'']),
     (ustr ''Swift'', [ustr ''.swift'']),
     (ustr ''Kotlin'', [ustr ''.kt'']),
     (ustr ''Scala'', [ustr ''.scala'']),
     (ustr ''HTML'', [ustr ''.html'', ustr ''.htm'']),
     (ustr ''CSS'', [ustr ''.css'', ustr ''.scss'', ustr ''.sass'']),
     (ustr ''Shell'', [ustr ''.sh'', ustr ''.bash'']),
     (ustr ''C#'', [ustr ''.cs'']),
     (ustr ''R'', [ustr ''.r'', ustr ''.R'']),
     (ustr ''SQL'', [ustr ''.sql''])]"

text \<open>
  The inversion loop: for every label in declaration order and every extension of the
  label, \<open>ext_to_lang[ext.lower()] = lang\<close>. The dictionary is a map; an assignment to a
  key that is already present replaces its value.
\<close>

definition invert_extensions :: "(str \<times> str list) list \<Rightarrow> (str \<rightharpoonup> str)" where
  "invert_extensions les =
     fold (\<lambda>(lang, exts) m. fold (\<lambda>ext m'. m'(lower ext \<mapsto> lang)) exts m) les Map.empty"

definition ext_to_lang :: "str \<rightharpoonup> str" where
  "ext_to_lang = invert_extensions lang_extensions"


section \<open>The framed banner\<close>

definition create_ascii_box :: "str \<Rightarrow> int \<Rightarrow> bool \<Rightarrow> str" where
  "create_ascii_box text width double_line =
     (let (top_char, bottom_char, horiz, vert, top_right, bottom_right) =
            (if double_line
             then (9556, 9562, 9552, 9553, 9559, 9565)
             else (9484, 9492, 9472, 9474, 9488, 9496));
          text = upper text;
          padding = width - int (length text) - 2;
          left_pad = padding div 2;
          right_pad = padding - left_pad;
          top = [top_char] @ str_mul [horiz] (width - 2) @ [top_right] @ [nl];
          middle = [vert] @ str_mul [space] left_pad @ text @ str_mul [space] right_pad
                     @ [vert] @ [nl];
          bottom = [bottom_char] @ str_mul [horiz] (width - 2) @ [bottom_right] @ [nl]
      in top @ middle @ bottom)"


section \<open>The directory tree and the walk\<close>

text \<open>
  The tree below the root directory, as \<open>os.walk\<close> lists it: every directory has its
  name, its non-directory entries in listing order and its subdirectories in listing
  order. An entry of a directory carries the outcome of \<open>open(...).read()\<close> on it:
  \<open>Some content\<close> is the text decoded with \<open>errors='ignore'\<close>, \<open>None\<close> stands for any
  exception raised by opening or reading. A subdirectory that \<open>os.walk\<close> does not enter
  (a symbolic link, a directory that cannot be listed) contributes nothing to the
  walk and is a directory with no entries here. The name of the root node is not
  looked at by the walk; the root is reached through its path.
\<close>

datatype dir = Dir (dname: str) (files: "(str \<times> str option) list") (subdirs: "dir list")

definition exclude_dirs :: "str set" where
  "exclude_dirs =
     {ustr ''.git'', ustr ''venv'', ustr ''__pycache__'', ustr ''.env'', ustr ''.pytest_cache'',
      ustr ''env'', ustr ''node_modules'', ustr ''.idea'', ustr ''target'', ustr ''build'',
      ustr ''dist''}"

text \<open>
  \<open>os.walk(root_dir)\<close>, top-down, together with the first statement of the loop body,
  \<open>dirnames[:] = [d for d in dirnames if d not in exclude_dirs]\<close>: the generator yields
  \<open>(dirpath, dirnames, filenames)\<close>, the body prunes \<open>dirnames\<close> in place, and the
  generator then descends into the directories that are left, in order. The result is
  the sequence of triples the loop body runs on, with \<open>dirnames\<close> as pruned.
\<close>

fun os_walk :: "str \<Rightarrow> dir \<Rightarrow> (str \<times> str list \<times> (str \<times> str option) list) list" where
  "os_walk dirpath (Dir n fs ds) =
     (dirpath, filter (\<lambda>d. d \<notin> exclude_dirs) (map dname ds), fs)
       # concat (map (\<lambda>d. os_walk (join dirpath (dname d)) d)
                     (filter (\<lambda>d. dname d \<notin> exclude_dirs) ds))"


section \<open>Collecting files by language\<close>

text \<open>
  A file record is the tuple \<open>(filename, dirpath, content)\<close>. \<open>files_by_lang\<close> is a
  \<open>defaultdict(list)\<close>; a dictionary keeps its keys in insertion order, so it is an
  association list. \<open>files_by_lang[lang].append(r)\<close> adds the key at the end when it is
  new and extends the list of the key in place otherwise.
\<close>

type_synonym file_record = "str \<times> str \<times> str"
type_synonym buckets = "(str \<times> file_record list) list"

fun dd_append :: "str \<Rightarrow> file_record \<Rightarrow> buckets \<Rightarrow> buckets" where
  "dd_append lang r [] = [(lang, [r])]"
| "dd_append lang r ((k, rs) # kvs) =
     (if k = lang then (k, rs @ [r]) # kvs else (k, rs) # dd_append lang r kvs)"

text \<open>\<open>files_by_lang[lang]\<close>: the list of the key, the empty list for a key not present.\<close>

definition bucket_of :: "buckets \<Rightarrow> str \<Rightarrow> file_record list" where
  "bucket_of files_by_lang lang =
     (case map_of files_by_lang lang of Some rs \<Rightarrow> rs | None \<Rightarrow> [])"

text \<open>
  The body of the inner loop for one entry of a directory. \<open>self\<close> is
  \<open>os.path.basename(__file__)\<close>. The three \<open>continue\<close>/\<open>pass\<close> exits leave the
  dictionary as it is.
\<close>

definition process_file :: "str \<Rightarrow> str \<Rightarrow> str \<times> str option \<Rightarrow> buckets \<Rightarrow> buckets" where
  "process_file self dirpath entry files_by_lang =
     (let filename = fst entry;
          ext = lower (snd (splitext filename))
      in case ext_to_lang ext of
           None \<Rightarrow> files_by_lang
         | Some lang \<Rightarrow>
             if filename = self then files_by_lang
             else (case snd entry of
                     None \<Rightarrow> files_by_lang
                   | Some content \<Rightarrow> dd_append lang (filename, dirpath, content) files_by_lang))"

definition collect_files :: "str \<Rightarrow> str \<Rightarrow> dir \<Rightarrow> buckets" where
  "collect_files self root_dir tree =
     fold (\<lambda>(dirpath, dirnames, filenames) files_by_lang.
             fold (process_file self dirpath) filenames files_by_lang)
          (os_walk root_dir tree) []"


section \<open>Volumes and the order of the languages\<close>

definition lang_volumes :: "buckets \<Rightarrow> (str \<times> nat) list" where
  "lang_volumes files_by_lang =
     map (\<lambda>(lang, files). (lang, sum_list (map (\<lambda>(_, _, content). length content) files)))
         files_by_lang"

text \<open>
  \<open>lang_volumes[l]\<close> inside the sort key. The key function is only applied to keys of
  \<open>lang_volumes\<close>, so the \<open>KeyError\<close> of a missing key cannot occur; the \<open>None\<close> branch
  is there to make the function total.
\<close>

definition volume_of :: "(str \<times> nat) list \<Rightarrow> str \<Rightarrow> nat" where
  "volume_of vols l = (case map_of vols l of Some v \<Rightarrow> v | None \<Rightarrow> 0)"

text \<open>
  \<open>sorted(xs, key=f, reverse=True)\<close>: CPython reverses the list, sorts it with its
  stable ascending sort and reverses the result.
\<close>

definition sorted_reverse :: "('a \<Rightarrow> nat) \<Rightarrow> 'a list \<Rightarrow> 'a list" where
  "sorted_reverse f xs = rev (sort_key f (rev xs))"

definition sorted_langs :: "buckets \<Rightarrow> str list" where
  "sorted_langs files_by_lang =
     (let vols = lang_volumes files_by_lang
      in sorted_reverse (volume_of vols) (map fst vols))"


section \<open>Writing the document\<close>

text \<open>
  The output file is opened with \<open>open(output_path, 'w', encoding='utf-8')\<close>, that is
  with strict error handling: \<open>outfile.write(s)\<close> encodes \<open>s\<close> as a whole and raises
  \<open>UnicodeEncodeError\<close> when \<open>s\<close> has a lone surrogate, a code point from U+D800 to
  U+DFFF. This is how \<open>os.walk\<close> hands on a byte of a file or directory name that is
  not UTF-8. A content read with \<open>errors='ignore'\<close> has no surrogate; the type of the
  model does not exclude one, and writing it fails as well.
\<close>

definition encodable :: "str \<Rightarrow> bool" where
  "encodable s = list_all (\<lambda>c. c < 55296 \<or> 57343 < c) s"

text \<open>
  The strings passed to \<open>outfile.write\<close>, in the order of the calls: six calls for every
  file record, the banner before and the blank spacing after the records of a
  language, and the banner, the heading and the separator line at the start.
\<close>

definition write_calls_file :: "str \<Rightarrow> file_record \<Rightarrow> str list" where
  "write_calls_file lang r =
     (case r of (filename, dirpath, content) \<Rightarrow>
        [filename @ [nl],
         dirpath @ [nl],
         ustr ''```'' @ lower lang @ [nl],
         content,
         [nl] @ ustr ''```'' @ [nl, nl],
         str_mul (ustr ''-'') 80 @ [nl, nl]])"

definition write_calls_lang :: "buckets \<Rightarrow> str \<Rightarrow> str list" where
  "write_calls_lang files_by_lang lang =
     [create_ascii_box lang 40 True]
     @ concat (map (write_calls_file lang) (bucket_of files_by_lang lang))
     @ [[nl, nl]]"

definition write_calls :: "str \<Rightarrow> str list \<Rightarrow> buckets \<Rightarrow> str list" where
  "write_calls project_name langs files_by_lang =
     [create_ascii_box (ustr ''Project Codebase Overview'') 40 False,
      ustr ''# '' @ project_name @ ustr '' Codebase Manifest'' @ [nl, nl],
      str_mul [9552] 40 @ [nl, nl]]
     @ concat (map (write_calls_lang files_by_lang) langs)"

text \<open>
  What the run depends on besides the script path and the tree: whether
  \<open>open(output_path, 'w')\<close> succeeds, and which lines the standard output accepts
  (\<open>print\<close> raises \<open>UnicodeEncodeError\<close> on a line that the encoding of the console
  cannot take).
\<close>

record env =
  can_open :: bool
  stdout_ok :: "str \<Rightarrow> bool"

text \<open>
  The exceptions that end a run. \<open>OpenFailed\<close>: the output file could not be opened, and
  nothing is written or printed. \<open>WriteFailed text\<close>: a call of \<open>outfile.write\<close> raised;
  the \<open>with\<close> statement closes the file, which then holds \<open>text\<close>, the strings of the
  calls before the failing one, and nothing is printed. \<open>PrintFailed text\<close>: the file
  was written in full, with \<open>text\<close>, and \<open>print\<close> raised.
\<close>

datatype error = OpenFailed | WriteFailed str | PrintFailed str

text \<open>
  The whole run. \<open>file\<close> is \<open>os.path.abspath(__file__)\<close>, the absolute path of the
  script, and \<open>tree\<close> is the directory tree at \<open>os.path.dirname\<close> of it. A run that
  completes yields the path of the output file, the text written to it and the line
  printed on the console.
\<close>

record run_result =
  output_path :: str
  document :: str
  console :: str

definition output_filename_of :: "str \<Rightarrow> str" where
  "output_filename_of file = basename (dirname file) @ ustr ''.codebase.md''"

definition generate_codebase_markdown :: "str \<Rightarrow> env \<Rightarrow> dir \<Rightarrow> error + run_result" where
  "generate_codebase_markdown file e tree =
     (let root_dir = dirname file;
          project_name = basename root_dir;
          output_filename = project_name @ ustr ''.codebase.md'';
          files_by_lang = collect_files (basename file) root_dir tree;
          calls = write_calls project_name (sorted_langs files_by_lang) files_by_lang;
          line = ustr ''Success: '' @ [39] @ output_filename @ [39]
                   @ ustr '' generated in workspace root: '' @ root_dir
      in if \<not> can_open e then Inl OpenFailed
         else if \<not> list_all encodable calls
           then Inl (WriteFailed (concat (takeWhile encodable calls)))
         else if \<not> stdout_ok e line then Inl (PrintFailed (concat calls))
         else Inr \<lparr> output_path = join root_dir output_filename,
                    document = concat calls,
                    console = line \<rparr>)"


section \<open>Vocabulary of the properties\<close>

text \<open>
  A name of a directory entry is not empty and has no path separator in it.
\<close>

definition valid_name :: "str \<Rightarrow> bool" where
  "valid_name n = (n \<noteq> [] \<and> sep \<notin> set n)"

text \<open>
  A tree of a file system: in every directory the entries have different names, the
  subdirectories have different names, and the names of the subdirectories are valid.
\<close>

fun fs_tree :: "dir \<Rightarrow> bool" where
  "fs_tree (Dir n fs ds) =
     (distinct (map fst fs) \<and> distinct (map dname ds) \<and>
      list_all (\<lambda>d. valid_name (dname d) \<and> fs_tree d) ds)"

text \<open>
  Every directory of the tree, the root included, with its path and with the flag
  ``lies in or below a directory whose name is in \<open>exclude_dirs\<close>''. The walk is not
  involved: this is the tree itself, in pre-order. The flag of the root is the argument
  \<open>excluded\<close>, which is \<open>False\<close> for the root of a run.
\<close>

fun tree_dirs :: "bool \<Rightarrow> str \<Rightarrow> dir \<Rightarrow> (str \<times> bool \<times> dir) list" where
  "tree_dirs excluded dirpath (Dir n fs ds) =
     (dirpath, excluded, Dir n fs ds)
       # concat (map (\<lambda>d. tree_dirs (excluded \<or> dname d \<in> exclude_dirs)
                                     (join dirpath (dname d)) d) ds)"

text \<open>The tree without the entries whose read fails.\<close>

fun readable_only :: "dir \<Rightarrow> dir" where
  "readable_only (Dir n fs ds) = Dir n (filter (\<lambda>e. snd e \<noteq> None) fs) (map readable_only ds)"

text \<open>
  The file entries of the document in the order in which \<open>render\<close> writes them, each
  with the label of the section it is written in.
\<close>

definition entries :: "str list \<Rightarrow> buckets \<Rightarrow> (str \<times> file_record) list" where
  "entries langs files_by_lang =
     concat (map (\<lambda>lang. map (Pair lang) (bucket_of files_by_lang lang)) langs)"

text \<open>The total character count of a list of records.\<close>

definition total_chars :: "file_record list \<Rightarrow> nat" where
  "total_chars rs = sum_list (map (\<lambda>(_, _, content). length content) rs)"

text \<open>
  What one directory entry contributes to the dictionary: the label and the record
  that \<open>process_file\<close> appends, or nothing.
\<close>

definition record_of :: "str \<Rightarrow> str \<Rightarrow> str \<times> str option \<Rightarrow> (str \<times> file_record) list" where
  "record_of self dirpath entry =
     (case (ext_to_lang (lower (snd (splitext (fst entry)))), snd entry) of
        (Some lang, Some content) \<Rightarrow>
          if fst entry = self then [] else [(lang, (fst entry, dirpath, content))]
      | _ \<Rightarrow> [])"

definition collected :: "str \<Rightarrow> str \<Rightarrow> dir \<Rightarrow> (str \<times> file_record) list" where
  "collected self root_dir tree =
     concat (map (\<lambda>(dirpath, dirnames, filenames). concat (map (record_of self dirpath) filenames))
                 (os_walk root_dir tree))"


text \<open>Appending a sequence of labelled records to the dictionary, one after the other.\<close>

definition dd_fill :: "(str \<times> file_record) list \<Rightarrow> buckets \<Rightarrow> buckets" where
  "dd_fill xs fbl = fold (\<lambda>(l, r). dd_append l r) xs fbl"

text \<open>
  A path \<open>q\<close> is the path of the entry \<open>n\<close> of the directory \<open>p\<close>, or continues it with
  a separator.
\<close>

definition below :: "str \<Rightarrow> str \<Rightarrow> str \<Rightarrow> bool" where
  "below p n q \<longleftrightarrow> (\<exists>s. q = join p n @ s \<and> (s = [] \<or> hd s = sep))"


text \<open>The triple that the walk yields for a directory of the tree.\<close>

definition visit :: "str \<times> bool \<times> dir \<Rightarrow> str \<times> str list \<times> (str \<times> str option) list" where
  "visit x = (fst x, filter (\<lambda>d. d \<notin> exclude_dirs) (map dname (subdirs (snd (snd x)))),
              files (snd (snd x)))"


text \<open>The directory and the name of a record, which identify the file it was read from.\<close>

definition rkey :: "str \<times> file_record \<Rightarrow> str \<times> str" where
  "rkey x = (fst (snd (snd x)), fst (snd x))"

text \<open>
  A small project for the concrete instances: the script in \<open>/home/u/proj\<close>, beside it a
  Python file, an image and a file that cannot be read, a \<open>node_modules\<close> directory and
  a source directory.
\<close>

definition example_file :: str where
  "example_file = ustr ''/home/u/proj/search_copy.py''"

definition example_tree :: dir where
  "example_tree =
     Dir (ustr ''proj'')
       [(ustr ''main.py'', Some (ustr ''print(1)'')),
        (ustr ''search_copy.py'', Some (ustr ''import os'')),
        (ustr ''image.png'', Some (ustr ''x'')),
        (ustr ''locked.rs'', None)]
       [Dir (ustr ''node_modules'') [(ustr ''lib.js'', Some (ustr ''x''))] [],
        Dir (ustr ''src'')
          [(ustr ''app.js'', Some (ustr ''ab'')), (ustr ''util.h'', Some (ustr ''cd''))] []]"


text \<open>
  The text of the output file after a run that wrote it in full: the run completed, or
  only the final \<open>print\<close> raised.
\<close>

definition complete_document :: "error + run_result \<Rightarrow> str option" where
  "complete_document r =
     (case r of
        Inl OpenFailed \<Rightarrow> None
      | Inl (WriteFailed text) \<Rightarrow> None
      | Inl (PrintFailed text) \<Rightarrow> Some text
      | Inr res \<Rightarrow> Some (document res))"

text \<open>
  The sections of the document in the order of the writing loop: for every language of
  the ordered list, its label and the records of its bucket.
\<close>

definition sections :: "buckets \<Rightarrow> (str \<times> file_record list) list" where
  "sections files_by_lang =
     map (\<lambda>lang. (lang, bucket_of files_by_lang lang)) (sorted_langs files_by_lang)"

text \<open>
  An environment in which the output file can be opened and the console takes every
  line, and two projects with a name that is not UTF-8: a file \<open>a\udc80.py\<close> in the
  root, and a file \<open>main.py\<close> in a directory \<open>s\udc80\<close>.
\<close>

definition example_env :: env where
  "example_env = \<lparr> can_open = True, stdout_ok = (\<lambda>line. True) \<rparr>"

definition surrogate_file_tree :: dir where
  "surrogate_file_tree =
     Dir (ustr ''proj'') [([97, 56448] @ ustr ''.py'', Some (ustr ''x''))] []"

definition surrogate_dir_tree :: dir where
  "surrogate_dir_tree =
     Dir (ustr ''proj'') []
       [Dir [115, 56448] [(ustr ''main.py'', Some (ustr ''print(1)''))] []]"


section \<open>Auxiliary facts about strings\<close>

lemma str_mul_single: "str_mul [c] n = replicate (nat n) c"
  by (induction "nat n" arbitrary: n) (auto simp: str_mul_def)

lemma split_nl_acc_line:
  "nl \<notin> set xs \<Longrightarrow> split_nl_acc cur (xs @ nl # ys) = (cur @ xs) # split_nl_acc [] ys"
  by (induction xs arbitrary: cur) auto

lemma split_nl_line: "nl \<notin> set xs \<Longrightarrow> split_nl (xs @ nl # ys) = xs # split_nl ys"
  by (simp add: split_nl_def split_nl_acc_line)

lemma split_nl_Nil: "split_nl [] = [[]]"
  by (simp add: split_nl_def)

lemma upper_nl: "nl \<in> set (upper s) \<longleftrightarrow> nl \<in> set s"
  by (auto simp: upper_def upper_cp_def image_iff split: if_splits)

lemma box_shape:
  "create_ascii_box text width dl =
     ((if dl then 9556 else 9484) # replicate (nat (width - 2)) (if dl then 9552 else 9472)
        @ [if dl then 9559 else 9488])
     @ nl # ((if dl then 9553 else 9474)
              # replicate (nat ((width - int (length (upper text)) - 2) div 2)) space
              @ upper text
              @ replicate (nat ((width - int (length (upper text)) - 2)
                                 - (width - int (length (upper text)) - 2) div 2)) space
              @ [if dl then 9553 else 9474])
     @ nl # ((if dl then 9562 else 9492) # replicate (nat (width - 2)) (if dl then 9552 else 9472)
              @ [if dl then 9565 else 9496])
     @ nl # []"
  by (simp add: create_ascii_box_def Let_def str_mul_single)


section \<open>The framed banner: three lines of the given width\<close>

text \<open>
  Claim C9, as stated, at the text consisting of one newline and width 40: the
  upper-cased text has length 1, which is at most 38, and the result has four
  newline-terminated lines, of lengths 40, 19, 20 and 40.
\<close>

theorem create_ascii_box_newline_text:
  "int (length (upper [nl])) \<le> 40 - 2 \<and>
   map length (split_nl (create_ascii_box [nl] 40 False)) = [40, 19, 20, 40, 0]"
proof -
  have u: "upper [nl] = [nl]" by (simp add: upper_def upper_cp_def)
  have n: "nl \<notin> set (9484 # replicate 38 9472 @ [9488::nat])"
    "nl \<notin> set (9474 # replicate 18 space)" "nl \<notin> set (replicate 19 space @ [9474::nat])"
    "nl \<notin> set (9492 # replicate 38 9472 @ [9496::nat])" by auto
  have "create_ascii_box [nl] 40 False =
          (9484 # replicate 38 9472 @ [9488::nat]) @ nl # (9474 # replicate 18 space)
          @ nl # (replicate 19 space @ [9474::nat])
          @ nl # (9492 # replicate 38 9472 @ [9496::nat]) @ nl # []"
    unfolding box_shape u by simp
  then show ?thesis
    by (simp only: split_nl_line [OF n(1)] split_nl_line [OF n(2)] split_nl_line [OF n(3)]
          split_nl_line [OF n(4)] split_nl_Nil u) simp
qed

text \<open>
  Claim C9, amended: for every text without a newline whose upper-cased form has length
  at most \<open>width - 2\<close>, \<open>create_ascii_box\<close> returns exactly three newline-terminated
  lines, each \<open>width\<close> characters long before its newline; the middle line is the
  vertical bar, \<open>lp\<close> spaces, the upper-cased text, \<open>rp\<close> spaces and the vertical bar,
  where \<open>lp\<close> is \<open>rp\<close> or one less.
\<close>

theorem create_ascii_box_three_lines:
  assumes "int (length (upper text)) \<le> width - 2" and "nl \<notin> set text"
  shows "\<exists>top bot lp rp.
           split_nl (create_ascii_box text width dl) =
             [top,
              (if dl then 9553 else 9474) # replicate lp space @ upper text @ replicate rp space
                @ [if dl then 9553 else 9474],
              bot, []] \<and>
           int (length top) = width \<and> int (length bot) = width \<and>
           int (lp + length (upper text) + rp + 2) = width \<and>
           (lp = rp \<or> lp + 1 = rp)"
proof -
  let ?p = "width - int (length (upper text)) - 2"
  let ?lp = "nat (?p div 2)" and ?rp = "nat (?p - ?p div 2)"
  let ?h = "if dl then 9552 else (9472::nat)" and ?v = "if dl then 9553 else (9474::nat)"
  let ?top = "(if dl then 9556 else 9484) # replicate (nat (width - 2)) ?h
                @ [if dl then 9559 else 9488]"
  let ?bot = "(if dl then 9562 else 9492) # replicate (nat (width - 2)) ?h
                @ [if dl then 9565 else 9496]"
  let ?mid = "?v # replicate ?lp space @ upper text @ replicate ?rp space @ [?v]"
  have p: "0 \<le> ?p" using assms(1) by simp
  have q: "0 \<le> ?p div 2" "?p div 2 \<le> ?p"
    "?p - ?p div 2 = ?p div 2 \<or> ?p - ?p div 2 = ?p div 2 + 1"
    using p by presburger+
  have t: "nl \<notin> set ?top" "nl \<notin> set ?bot" by auto
  have m: "nl \<notin> set ?mid" using assms(2) by (auto simp: upper_nl)
  have f1: "split_nl (create_ascii_box text width dl) = [?top, ?mid, ?bot, []]"
    unfolding box_shape
    by (simp only: split_nl_line [OF t(1)] split_nl_line [OF m] split_nl_line [OF t(2)]
          split_nl_Nil)
  have f2: "int (length ?top) = width" and f3: "int (length ?bot) = width"
    using p by auto
  have f4: "int (?lp + length (upper text) + ?rp + 2) = width"
    using p q(1,2) by simp
  have "nat (?p - ?p div 2) = nat (?p div 2) \<or> nat (?p - ?p div 2) = nat (?p div 2 + 1)"
    using q(3) by (elim disjE) (simp_all only: simp_thms)
  then have f5: "?lp = ?rp \<or> ?lp + 1 = ?rp"
    using q(1) by (auto simp only: nat_add_distrib nat_one_as_int [symmetric] zero_le_one)
  show ?thesis
    apply (rule exI [of _ ?top], rule exI [of _ ?bot], rule exI [of _ ?lp], rule exI [of _ ?rp])
    by (intro conjI f1 f2 f3 f4 f5)
qed

theorem create_ascii_box_three_lines_witness:
  "int (length (upper (ustr ''c++''))) \<le> 10 - 2 \<and> nl \<notin> set (ustr ''c++'') \<and>
   (\<exists>top bot lp rp.
      split_nl (create_ascii_box (ustr ''c++'') 10 True) =
        [top, 9553 # replicate lp space @ upper (ustr ''c++'') @ replicate rp space @ [9553],
         bot, []] \<and>
      int (length top) = 10 \<and> int (length bot) = 10 \<and>
      int (lp + length (upper (ustr ''c++'')) + rp + 2) = 10 \<and>
      (lp = rp \<or> lp + 1 = rp))"
proof -
  have h1: "int (length (upper (ustr ''c++''))) \<le> 10 - 2" by (simp add: upper_def)
  have h2: "nl \<notin> set (ustr ''c++'')" by simp
  show ?thesis
    using create_ascii_box_three_lines [OF h1 h2, of True] h1 h2 by simp
qed


section \<open>The registry: the label declared last wins\<close>

lemma find_append_opt:
  "List.find P (xs @ ys) = (case List.find P xs of None \<Rightarrow> List.find P ys | Some x \<Rightarrow> Some x)"
  by (induction xs) auto

lemma fold_upd_lookup:
  "fold (\<lambda>ext m'. m'(lower ext \<mapsto> lang)) exts m e =
     (if e \<in> set (map lower exts) then Some lang else m e)"
proof (induction exts arbitrary: m)
  case Nil
  then show ?case by simp
next
  case (Cons x exts)
  show ?case
    unfolding fold_simps Cons.IH by auto
qed

lemma fold_last_writer:
  assumes "\<And>lang exts m e.
             step (lang, exts) m e = (if e \<in> set (map lower exts) then Some lang else m e)"
  shows "fold step les m e =
     (case List.find (\<lambda>(lang, exts). e \<in> set (map lower exts)) (rev les) of
        None \<Rightarrow> m e | Some (lang, exts) \<Rightarrow> Some lang)"
proof (induction les arbitrary: m)
  case Nil
  then show ?case by simp
next
  case (Cons le les)
  obtain lang exts where le: "le = (lang, exts)" by (cases le)
  show ?case
    by (simp add: Cons.IH le assms find_append_opt split: option.splits)
qed

lemma fold_invert_lookup:
  "fold (\<lambda>(lang, exts) m. fold (\<lambda>ext m'. m'(lower ext \<mapsto> lang)) exts m) les m e =
     (case List.find (\<lambda>(lang, exts). e \<in> set (map lower exts)) (rev les) of
        None \<Rightarrow> m e | Some (lang, exts) \<Rightarrow> Some lang)"
  by (rule fold_last_writer) (simp only: prod.case fold_upd_lookup)

text \<open>
  Claim C2, as stated, at the extension \<open>.h\<close>: the first pair of the declared list
  that has \<open>.h\<close> is the one of \<open>C++\<close>, and the lookup built by the loop does not give
  \<open>C++\<close> for it.
\<close>

theorem ext_to_lang_h_not_first_declared:
  "map_option fst
     (List.find (\<lambda>(lang, exts). ustr ''.h'' \<in> set (map lower exts)) lang_extensions)
     = Some (ustr ''C++'') \<and>
   ext_to_lang (ustr ''.h'') \<noteq> Some (ustr ''C++'')"
  by (simp add: ext_to_lang_def invert_extensions_def lang_extensions_def lower_def lower_cp_def)

text \<open>
  Claim C2, amended: the lookup built from an ordered list of (label, extensions) pairs
  resolves an extension to the label of the last pair, in declaration order, that has
  the extension (lower-cased) among its extensions, and to nothing when no pair has it;
  \<open>.h\<close>, declared by \<open>C++\<close> and then by \<open>C\<close>, maps to \<open>C\<close>.
\<close>

theorem invert_extensions_last_declared:
  "invert_extensions les e =
     map_option fst (List.find (\<lambda>(lang, exts). e \<in> set (map lower exts)) (rev les)) \<and>
   ext_to_lang (ustr ''.h'') = Some (ustr ''C'')"
proof
  show "invert_extensions les e =
     map_option fst (List.find (\<lambda>(lang, exts). e \<in> set (map lower exts)) (rev les))"
    unfolding invert_extensions_def fold_invert_lookup
    by (simp split: option.splits)
  show "ext_to_lang (ustr ''.h'') = Some (ustr ''C'')"
    by (simp add: ext_to_lang_def invert_extensions_def lang_extensions_def lower_def lower_cp_def)
qed


section \<open>The dictionary of buckets\<close>

lemma dd_append_keys:
  "map fst (dd_append l r fbl) = (if l \<in> fst ` set fbl then map fst fbl else map fst fbl @ [l])"
proof (induction fbl)
  case Nil
  then show ?case by simp
next
  case (Cons kv fbl)
  obtain k rs where kv: "kv = (k, rs)" by (cases kv)
  show ?case
  proof (cases "k = l")
    case True
    then show ?thesis by (simp add: kv)
  next
    case False
    then show ?thesis using Cons.IH by (simp add: kv)
  qed
qed

lemma dd_append_distinct:
  "distinct (map fst fbl) \<Longrightarrow> distinct (map fst (dd_append l r fbl))"
  by (simp add: dd_append_keys)

lemma map_of_dd_append:
  "map_of (dd_append l r fbl) k =
     (if k = l then Some ((case map_of fbl l of None \<Rightarrow> [] | Some rs \<Rightarrow> rs) @ [r]) else map_of fbl k)"
  by (induction fbl) auto

lemma bucket_of_dd_append:
  "bucket_of (dd_append l r fbl) k = (if k = l then bucket_of fbl k @ [r] else bucket_of fbl k)"
  by (simp add: bucket_of_def map_of_dd_append split: option.splits)

lemma dd_fill_simps [simp]:
  "dd_fill [] fbl = fbl"
  "dd_fill ((l, r) # xs) fbl = dd_fill xs (dd_append l r fbl)"
  "dd_fill (xs @ ys) fbl = dd_fill ys (dd_fill xs fbl)"
  by (simp_all add: dd_fill_def)

lemma dd_fill_distinct:
  "distinct (map fst fbl) \<Longrightarrow> distinct (map fst (dd_fill xs fbl))"
  by (induction xs arbitrary: fbl) (auto simp: dd_append_distinct)

lemma dd_append_key_set: "fst ` set (dd_append l r fbl) = insert l (fst ` set fbl)"
  using arg_cong [OF dd_append_keys [of l r fbl], of set] by (auto split: if_splits)

lemma dd_fill_key_set:
  "fst ` set (dd_fill xs fbl) = fst ` set fbl \<union> fst ` set xs"
proof (induction xs arbitrary: fbl)
  case Nil
  then show ?case by simp
next
  case (Cons x xs)
  obtain l r where x: "x = (l, r)" by (cases x)
  show ?case unfolding x dd_fill_simps Cons.IH dd_append_key_set by auto
qed

lemma bucket_of_dd_fill:
  "bucket_of (dd_fill xs fbl) k = bucket_of fbl k @ map snd (filter (\<lambda>x. fst x = k) xs)"
  by (induction xs arbitrary: fbl) (auto simp: bucket_of_dd_append)

lemma bucket_of_Nil [simp]: "bucket_of [] k = []"
  by (simp add: bucket_of_def)

lemma bucket_of_member:
  "distinct (map fst fbl) \<Longrightarrow> (l, rs) \<in> set fbl \<Longrightarrow> bucket_of fbl l = rs"
  by (simp add: bucket_of_def)

lemma process_file_record_of:
  "process_file self dirpath entry fbl = dd_fill (record_of self dirpath entry) fbl"
  by (cases entry) (simp add: process_file_def record_of_def Let_def split: option.splits)

lemma fold_process_file:
  "fold (process_file self dirpath) fs fbl = dd_fill (concat (map (record_of self dirpath) fs)) fbl"
  by (induction fs arbitrary: fbl) (simp_all add: process_file_record_of)

lemma fold_dirs:
  "fold (\<lambda>(dirpath, dirnames, filenames) fbl. fold (process_file self dirpath) filenames fbl) ts fbl =
     dd_fill (concat (map (\<lambda>(dirpath, dirnames, filenames). concat (map (record_of self dirpath) filenames)) ts)) fbl"
  by (induction ts arbitrary: fbl) (auto simp: fold_process_file)

lemma collect_files_collected:
  "collect_files self root_dir tree = dd_fill (collected self root_dir tree) []"
  by (simp add: collect_files_def collected_def fold_dirs)

lemma collect_files_distinct: "distinct (map fst (collect_files self root_dir tree))"
  by (simp add: collect_files_collected dd_fill_distinct)

lemma bucket_of_collect_files:
  "bucket_of (collect_files self root_dir tree) k =
     map snd (filter (\<lambda>x. fst x = k) (collected self root_dir tree))"
  by (simp add: collect_files_collected bucket_of_dd_fill)

lemma collect_files_keys:
  "fst ` set (collect_files self root_dir tree) = fst ` set (collected self root_dir tree)"
  by (simp add: collect_files_collected dd_fill_key_set)

lemma in_collect_files_iff:
  "(\<exists>rs. (l, rs) \<in> set (collect_files self root_dir tree) \<and> r \<in> set rs)
     \<longleftrightarrow> (l, r) \<in> set (collected self root_dir tree)"
proof
  assume "\<exists>rs. (l, rs) \<in> set (collect_files self root_dir tree) \<and> r \<in> set rs"
  then obtain rs where rs: "(l, rs) \<in> set (collect_files self root_dir tree)" "r \<in> set rs"
    by blast
  from rs(1) have "bucket_of (collect_files self root_dir tree) l = rs"
    by (rule bucket_of_member [OF collect_files_distinct])
  with rs(2) show "(l, r) \<in> set (collected self root_dir tree)"
    by (auto simp: bucket_of_collect_files)
next
  assume a: "(l, r) \<in> set (collected self root_dir tree)"
  then have "l \<in> fst ` set (collect_files self root_dir tree)"
    unfolding collect_files_keys by force
  then obtain rs where rs: "(l, rs) \<in> set (collect_files self root_dir tree)"
    by auto
  then have "bucket_of (collect_files self root_dir tree) l = rs"
    by (rule bucket_of_member [OF collect_files_distinct])
  then have "r \<in> set rs" using a by (force simp: bucket_of_collect_files)
  with rs show "\<exists>rs. (l, rs) \<in> set (collect_files self root_dir tree) \<and> r \<in> set rs"
    by blast
qed


lemma in_record_of_iff:
  "(l, (f, p, c)) \<in> set (record_of self dirpath e) \<longleftrightarrow>
     p = dirpath \<and> e = (f, Some c) \<and> ext_to_lang (lower (snd (splitext f))) = Some l \<and> f \<noteq> self"
  by (cases e) (auto simp: record_of_def split: option.splits if_splits)

lemma in_triple_iff:
  "(l, (f, p, c)) \<in> set (case t of (dirpath, dirnames, filenames) \<Rightarrow>
                            concat (map (record_of self dirpath) filenames)) \<longleftrightarrow>
     fst t = p \<and> (f, Some c) \<in> set (snd (snd t)) \<and>
     ext_to_lang (lower (snd (splitext f))) = Some l \<and> f \<noteq> self"
  by (cases t) (auto simp: in_record_of_iff)

lemma in_collected_iff:
  "(l, (f, p, c)) \<in> set (collected self root_dir tree) \<longleftrightarrow>
     (\<exists>dirnames fs. (p, dirnames, fs) \<in> set (os_walk root_dir tree) \<and> (f, Some c) \<in> set fs) \<and>
        ext_to_lang (lower (snd (splitext f))) = Some l \<and> f \<noteq> self"
    (is "?L \<longleftrightarrow> ?W \<and> ?E")
proof
  assume ?L
  then obtain t where t: "t \<in> set (os_walk root_dir tree)"
    "(l, (f, p, c)) \<in> set (case t of (dirpath, dirnames, filenames) \<Rightarrow>
                            concat (map (record_of self dirpath) filenames))"
    unfolding collected_def set_concat set_map by blast
  from t(2) have *: "fst t = p" "(f, Some c) \<in> set (snd (snd t))" ?E
    unfolding in_triple_iff by blast+
  obtain q dn fs where tq: "t = (q, dn, fs)" by (cases t)
  have ?W using t(1) *(1,2) unfolding tq by auto
  then show "?W \<and> ?E" using *(3) by (rule conjI)
next
  assume r: "?W \<and> ?E"
  then obtain dirnames fs where w: "(p, dirnames, fs) \<in> set (os_walk root_dir tree)"
    "(f, Some c) \<in> set fs" by blast
  have "(l, (f, p, c)) \<in> set (case (p, dirnames, fs) of (dirpath, dirnames, filenames) \<Rightarrow>
                            concat (map (record_of self dirpath) filenames))"
    unfolding in_triple_iff using r w(2) by simp
  with w(1) show ?L
    unfolding collected_def set_concat set_map by blast
qed


section \<open>The extension of the output file name\<close>

lemma rfind_bounds: "- 1 \<le> rfind s c \<and> rfind s c < int (length s)"
proof (cases "c \<in> set s")
  case True
  then have "c \<in> set (rev s)" by simp
  then have "takeWhile (\<lambda>x. x \<noteq> c) (rev s) \<noteq> rev s"
    unfolding takeWhile_eq_all_conv by blast
  then have "length (takeWhile (\<lambda>x. x \<noteq> c) (rev s)) \<noteq> length (rev s)"
    by (metis takeWhile_eq_take take_all_iff order_refl)
  then have "length (takeWhile (\<lambda>x. x \<noteq> c) (rev s)) < length (rev s)"
    using length_takeWhile_le [of "\<lambda>x. x \<noteq> c" "rev s"] by linarith
  then show ?thesis using True by (simp add: rfind_def)
next
  case False
  then show ?thesis by (simp add: rfind_def)
qed

lemma rfind_append_absent:
  assumes "c \<notin> set t"
  shows "rfind (p @ t) c = rfind p c"
proof -
  have "takeWhile (\<lambda>x. x \<noteq> c) (rev t @ rev p) = rev t @ takeWhile (\<lambda>x. x \<noteq> c) (rev p)"
    using assms by (intro takeWhile_append2) auto
  then show ?thesis using assms by (simp add: rfind_def)
qed

lemma rfind_dot_codebase_md: "rfind (p @ ustr ''.codebase.md'') extsep = int (length p) + 9"
  by (simp add: rfind_def)

lemma splitext_codebase_md: "snd (splitext (p @ ustr ''.codebase.md'')) = ustr ''.md''"
proof -
  let ?t = "ustr ''.codebase.md''"
  have s: "rfind (p @ ?t) sep = rfind p sep"
    by (rule rfind_append_absent) simp
  have d: "rfind (p @ ?t) extsep = int (length p) + 9"
    by (rule rfind_dot_codebase_md)
  have b: "- 1 \<le> rfind p sep" "rfind p sep < int (length p)"
    using rfind_bounds [of p sep] by simp_all
  have n: "nat (int (length p) + 9) = length p + 9" by simp
  have k: "nat (rfind p sep + 1) \<le> length p" using b by simp
  have "(99::nat) \<in> set (drop (nat (rfind p sep + 1)) (take (length p + 9) (p @ ?t)))"
    using k by simp
  then have ex: "list_ex (\<lambda>c. c \<noteq> extsep) (drop (nat (rfind p sep + 1)) (take (length p + 9) (p @ ?t)))"
    unfolding list_ex_iff by (rule bexI [rotated]) simp
  show ?thesis
    unfolding splitext_def Let_def s d n using b ex by simp
qed

lemma md_not_registered: "ext_to_lang (ustr ''.md'') = None"
  by (simp add: ext_to_lang_def invert_extensions_def lang_extensions_def lower_def lower_cp_def)

lemma lower_md: "lower (ustr ''.md'') = ustr ''.md''"
  by (simp add: lower_def lower_cp_def)



section \<open>Paths of the directories of a tree\<close>

lemma join_valid:
  "valid_name n \<Longrightarrow> join p n = p @ (if p = [] \<or> last p = sep then [] else [sep]) @ n"
  by (cases n) (auto simp: join_def valid_name_def)

lemma valid_name_last: "valid_name n \<Longrightarrow> last n \<noteq> sep"
  unfolding valid_name_def by (metis last_in_set)

lemma join_valid_last: "valid_name n \<Longrightarrow> join p n \<noteq> [] \<and> last (join p n) \<noteq> sep"
  using valid_name_last [of n] by (auto simp: join_valid valid_name_def)

lemma join_join:
  "valid_name n \<Longrightarrow> valid_name m \<Longrightarrow> join (join p n) m = join p n @ sep # m"
  using join_valid_last [of n p] by (simp add: join_valid [of m])

lemma below_refl: "below p n (join p n)"
  by (simp add: below_def)

lemma below_step:
  assumes "valid_name n" "valid_name m" "below (join p n) m q"
  shows "below p n q"
proof -
  from assms(3) obtain s where "q = join (join p n) m @ s" by (auto simp: below_def)
  then have "q = join p n @ (sep # m @ s)" using assms(1,2) by (simp add: join_join)
  then show ?thesis unfolding below_def by (intro exI [of _ "sep # m @ s"]) simp
qed

lemma below_neq: "valid_name n \<Longrightarrow> below p n q \<Longrightarrow> q \<noteq> p"
  by (auto simp: below_def join_valid valid_name_def)

lemma takeWhile_name:
  "sep \<notin> set n \<Longrightarrow> s = [] \<or> hd s = sep \<Longrightarrow> takeWhile (\<lambda>x. x \<noteq> sep) (n @ s) = n"
  by (induction n) (cases s; auto)+

lemma name_prefix_unique:
  assumes "sep \<notin> set n" "sep \<notin> set n'" "n @ s = n' @ s'"
    "s = [] \<or> hd s = sep" "s' = [] \<or> hd s' = sep"
  shows "n = n'"
proof -
  have "takeWhile (\<lambda>x. x \<noteq> sep) (n @ s) = n"
    using assms(1,4) by (rule takeWhile_name)
  moreover have "takeWhile (\<lambda>x. x \<noteq> sep) (n' @ s') = n'"
    using assms(2,5) by (rule takeWhile_name)
  ultimately show ?thesis using assms(3) by simp
qed

lemma below_unique:
  assumes "valid_name n" "valid_name n'" "below p n q" "below p n' q"
  shows "n = n'"
proof -
  from assms(3) obtain s where s: "q = join p n @ s" "s = [] \<or> hd s = sep"
    by (auto simp: below_def)
  from assms(4) obtain s' where s': "q = join p n' @ s'" "s' = [] \<or> hd s' = sep"
    by (auto simp: below_def)
  from s(1) s'(1) have "n @ s = n' @ s'"
    using assms(1,2) by (simp add: join_valid)
  then show ?thesis
    using assms(1,2) s(2) s'(2) by (intro name_prefix_unique [of n n' s s']) (auto simp: valid_name_def)
qed

lemma fs_tree_sub: "fs_tree (Dir n fs ds) \<Longrightarrow> d \<in> set ds \<Longrightarrow> valid_name (dname d) \<and> fs_tree d"
  by (simp add: list_all_iff)

lemma tree_dirs_paths_below:
  "fs_tree d \<Longrightarrow> valid_name n \<Longrightarrow> x \<in> set (tree_dirs e (join p n) d) \<Longrightarrow> below p n (fst x)"
proof (induction d arbitrary: e p n x)
  case (Dir m fs ds)
  from Dir.prems(3) consider "x = (join p n, e, Dir m fs ds)"
    | d' where "d' \<in> set ds" "x \<in> set (tree_dirs (e \<or> dname d' \<in> exclude_dirs) (join (join p n) (dname d')) d')"
    by auto
  then show ?case
  proof cases
    case 1
    then show ?thesis by (simp add: below_refl)
  next
    case 2
    from fs_tree_sub [OF Dir.prems(1) 2(1)] have v: "valid_name (dname d')" "fs_tree d'" by simp_all
    from Dir.IH [OF 2(1) v(2) v(1) 2(2)] have "below (join p n) (dname d') (fst x)" .
    with Dir.prems(2) v(1) show ?thesis by (rule below_step)
  qed
qed

lemma distinct_map_concat:
  assumes "distinct (map k xs)"
    and "\<And>x. x \<in> set xs \<Longrightarrow> distinct (map g (f x))"
    and "\<And>x y a b. x \<in> set xs \<Longrightarrow> y \<in> set xs \<Longrightarrow> a \<in> set (f x) \<Longrightarrow> b \<in> set (f y) \<Longrightarrow> g a = g b \<Longrightarrow> k x = k y"
  shows "distinct (map g (concat (map f xs)))"
  using assms
proof (induction xs)
  case Nil
  then show ?case by simp
next
  case (Cons x xs)
  have "distinct (map g (concat (map f xs)))"
    using Cons.prems by (intro Cons.IH) auto
  moreover have "distinct (map g (f x))" using Cons.prems(2) by simp
  moreover have "set (map g (f x)) \<inter> set (map g (concat (map f xs))) = {}"
  proof (rule ccontr)
    assume "set (map g (f x)) \<inter> set (map g (concat (map f xs))) \<noteq> {}"
    then obtain a b y where *: "a \<in> set (f x)" "y \<in> set xs" "b \<in> set (f y)" "g a = g b"
      by auto
    then have "k x = k y" using Cons.prems(3) [of x y a b] by simp
    then show False using Cons.prems(1) *(2) by auto
  qed
  ultimately show ?case by simp
qed

lemma tree_dirs_distinct:
  "fs_tree d \<Longrightarrow> distinct (map fst (tree_dirs e p d))"
proof (induction d arbitrary: e p)
  case (Dir m fs ds)
  let ?f = "\<lambda>d. tree_dirs (e \<or> dname d \<in> exclude_dirs) (join p (dname d)) d"
  have sub: "\<And>d. d \<in> set ds \<Longrightarrow> valid_name (dname d) \<and> fs_tree d"
    using fs_tree_sub [OF Dir.prems] by blast
  have "distinct (map fst (concat (map ?f ds)))"
  proof (rule distinct_map_concat [where k = dname])
    show "distinct (map dname ds)" using Dir.prems by simp
    show "distinct (map fst (?f x))" if "x \<in> set ds" for x
      using Dir.IH [OF that] sub [OF that] by simp
    show "dname x = dname y"
      if "x \<in> set ds" "y \<in> set ds" "a \<in> set (?f x)" "b \<in> set (?f y)" "fst a = fst b" for x y a b
    proof -
      have "below p (dname x) (fst a)"
        using tree_dirs_paths_below [of x "dname x" a _ p] sub [OF that(1)] that(3) by blast
      moreover have "below p (dname y) (fst a)"
        using tree_dirs_paths_below [of y "dname y" b _ p] sub [OF that(2)] that(4,5) by simp
      ultimately show ?thesis using sub [OF that(1)] sub [OF that(2)] below_unique by blast
    qed
  qed
  moreover have "p \<notin> set (map fst (concat (map ?f ds)))"
  proof
    assume "p \<in> set (map fst (concat (map ?f ds)))"
    then obtain d x where *: "d \<in> set ds" "x \<in> set (?f d)" "fst x = p" by auto
    have "below p (dname d) (fst x)"
      using tree_dirs_paths_below [of d "dname d" x _ p] sub [OF *(1)] *(2) by blast
    then show False using below_neq sub [OF *(1)] *(3) by blast
  qed
  ultimately show ?case by simp
qed



section \<open>The walk visits the directories that are not excluded\<close>

lemma tree_dirs_excluded: "x \<in> set (tree_dirs True p d) \<Longrightarrow> fst (snd x)"
proof (induction d arbitrary: p x)
  case (Dir n fs ds)
  from Dir.prems consider "x = (p, True, Dir n fs ds)"
    | d' where "d' \<in> set ds" "x \<in> set (tree_dirs True (join p (dname d')) d')"
    by auto
  then show ?case
  proof cases
    case 1
    then show ?thesis by simp
  next
    case 2
    then show ?thesis by (rule Dir.IH)
  qed
qed

lemma tree_dirs_excluded_filter:
  "filter (\<lambda>x. \<not> fst (snd x)) (tree_dirs True p d) = []"
  unfolding filter_empty_conv using tree_dirs_excluded by blast

lemma concat_map_filter_cases:
  "(\<And>x. x \<in> set xs \<Longrightarrow> g x = (if P x then f x else [])) \<Longrightarrow>
     concat (map f (filter P xs)) = concat (map g xs)"
  by (induction xs) auto

lemma os_walk_tree_dirs:
  "os_walk p d = map visit (filter (\<lambda>x. \<not> fst (snd x)) (tree_dirs False p d))"
proof (induction d arbitrary: p)
  case (Dir n fs ds)
  let ?g = "\<lambda>d. map visit (filter (\<lambda>x. \<not> fst (snd x))
                 (tree_dirs (dname d \<in> exclude_dirs) (join p (dname d)) d))"
  have "concat (map (\<lambda>d. os_walk (join p (dname d)) d) (filter (\<lambda>d. dname d \<notin> exclude_dirs) ds))
          = concat (map ?g ds)"
  proof (rule concat_map_filter_cases)
    fix d assume d: "d \<in> set ds"
    show "?g d = (if dname d \<notin> exclude_dirs then os_walk (join p (dname d)) d else [])"
      using Dir.IH [OF d, of "join p (dname d)"] by (simp add: tree_dirs_excluded_filter)
  qed
  moreover have "visit (p, False, Dir n fs ds) =
      (p, filter (\<lambda>d. d \<notin> exclude_dirs) (map dname ds), fs)"
    by (simp add: visit_def)
  ultimately show ?case
    by (simp add: map_concat filter_concat comp_def)
qed

lemma os_walk_paths:
  "t \<in> set (os_walk p d) \<Longrightarrow> \<exists>d'. (fst t, False, d') \<in> set (tree_dirs False p d) \<and> snd (snd t) = files d'"
  unfolding os_walk_tree_dirs by (auto simp: visit_def)

lemma tree_dirs_visited:
  "(q, False, d') \<in> set (tree_dirs False p d) \<Longrightarrow>
     (q, filter (\<lambda>d. d \<notin> exclude_dirs) (map dname (subdirs d')), files d') \<in> set (os_walk p d)"
  unfolding os_walk_tree_dirs by (force simp: visit_def)

lemma os_walk_distinct: "fs_tree d \<Longrightarrow> distinct (map fst (os_walk p d))"
proof -
  assume "fs_tree d"
  then have "distinct (map fst (filter (\<lambda>x. \<not> fst (snd x)) (tree_dirs False p d)))"
    by (intro distinct_map_filter tree_dirs_distinct)
  moreover have "map fst (os_walk p d) = map fst (filter (\<lambda>x. \<not> fst (snd x)) (tree_dirs False p d))"
    unfolding os_walk_tree_dirs by (simp add: visit_def comp_def)
  ultimately show ?thesis by simp
qed

lemma excluded_not_walked:
  assumes "fs_tree tree" and "(p, True, d) \<in> set (tree_dirs False root_dir tree)"
  shows "p \<notin> fst ` set (os_walk root_dir tree)"
proof
  assume "p \<in> fst ` set (os_walk root_dir tree)"
  then obtain t where t: "t \<in> set (os_walk root_dir tree)" "fst t = p" by auto
  from os_walk_paths [OF t(1)] t(2) obtain d' where
    d': "(p, False, d') \<in> set (tree_dirs False root_dir tree)" by auto
  have "(True, d) = (False, d')"
    using tree_dirs_distinct [OF assms(1)] assms(2) d' by (rule eq_key_imp_eq_value)
  then show False by simp
qed



section \<open>Entries that contribute nothing\<close>

lemma dname_readable_only [simp]: "dname (readable_only d) = dname d"
  by (cases d) simp

lemma concat_map_filter_skip:
  "(\<And>x. x \<in> set xs \<Longrightarrow> \<not> P x \<Longrightarrow> f x = []) \<Longrightarrow>
     concat (map f (filter P xs)) = concat (map f xs)"
  by (induction xs) auto

lemma record_of_unreadable: "record_of self dirpath (filename, None) = []"
  by (simp add: record_of_def split: option.splits)

lemma os_walk_readable_only:
  "os_walk p (readable_only d) =
     map (\<lambda>t. (fst t, fst (snd t), filter (\<lambda>e. snd e \<noteq> None) (snd (snd t)))) (os_walk p d)"
proof (induction d arbitrary: p)
  case (Dir n fs ds)
  have "map (\<lambda>d. os_walk (join p (dname d)) d)
          (filter (\<lambda>d. dname d \<notin> exclude_dirs) (map readable_only ds)) =
        map (\<lambda>d. map (\<lambda>t. (fst t, fst (snd t), filter (\<lambda>e. snd e \<noteq> None) (snd (snd t))))
                    (os_walk (join p (dname d)) d))
          (filter (\<lambda>d. dname d \<notin> exclude_dirs) ds)"
    using Dir.IH by (simp add: filter_map comp_def)
  then show ?case
    by (simp add: map_concat comp_def)
qed

lemma collected_alt:
  "collected self p d =
     concat (map (\<lambda>t. concat (map (record_of self (fst t)) (snd (snd t)))) (os_walk p d))"
  by (simp add: collected_def case_prod_unfold)

lemma collected_readable_only:
  "collected self p (readable_only d) = collected self p d"
proof -
  have "concat (map (record_of self q) (filter (\<lambda>e. snd e \<noteq> None) fs)) =
        concat (map (record_of self q) fs)" for q fs
    by (rule concat_map_filter_skip) (auto simp: record_of_unreadable)
  then show ?thesis
    by (simp add: collected_alt os_walk_readable_only comp_def)
qed

lemma collect_files_readable_only:
  "collect_files self p (readable_only d) = collect_files self p d"
  by (simp add: collect_files_collected collected_readable_only)

lemma record_of_output_file:
  assumes "fst e = b @ ustr ''.codebase.md''"
  shows "record_of self dirpath e = []"
proof -
  have "ext_to_lang (lower (snd (splitext (fst e)))) = None"
    unfolding assms splitext_codebase_md lower_md by (rule md_not_registered)
  then show ?thesis by (simp add: record_of_def)
qed

lemma collected_root_files:
  assumes "filter (\<lambda>e. fst e \<noteq> b @ ustr ''.codebase.md'') fs' =
           filter (\<lambda>e. fst e \<noteq> b @ ustr ''.codebase.md'') fs"
  shows "collected self p (Dir n fs' ds) = collected self p (Dir n fs ds)"
proof -
  let ?P = "\<lambda>e. fst e \<noteq> b @ ustr ''.codebase.md''"
  have "concat (map (record_of self p) xs) = concat (map (record_of self p) (filter ?P xs))" for xs
    by (rule concat_map_filter_skip [symmetric]) (simp add: record_of_output_file)
  then have "concat (map (record_of self p) fs') = concat (map (record_of self p) fs)"
    using assms by metis
  then show ?thesis by (simp add: collected_def)
qed



section \<open>Sorting and rendering\<close>

lemma total_chars_Nil [simp]: "total_chars [] = 0"
  by (simp add: total_chars_def)

lemma map_of_lang_volumes:
  "map_of (lang_volumes fbl) l = map_option total_chars (map_of fbl l)"
  by (induction fbl) (auto simp: lang_volumes_def total_chars_def)

lemma volume_of_lang_volumes:
  "volume_of (lang_volumes fbl) l = total_chars (bucket_of fbl l)"
  by (simp add: volume_of_def bucket_of_def map_of_lang_volumes split: option.splits)

lemma lang_volumes_keys: "map fst (lang_volumes fbl) = map fst fbl"
  by (induction fbl) (auto simp: lang_volumes_def)

lemma sorted_langs_alt:
  "sorted_langs fbl = sorted_reverse (\<lambda>l. total_chars (bucket_of fbl l)) (map fst fbl)"
proof -
  have "volume_of (lang_volumes fbl) = (\<lambda>l. total_chars (bucket_of fbl l))"
    by (rule ext) (rule volume_of_lang_volumes)
  then show ?thesis by (simp add: sorted_langs_def Let_def lang_volumes_keys)
qed

lemma mset_sorted_reverse: "mset (sorted_reverse f xs) = mset xs"
  by (simp add: sorted_reverse_def)

lemma sorted_reverse_descending: "sorted_wrt (\<lambda>a b. f a \<ge> f b) (sorted_reverse f xs)"
proof -
  have "sorted (map f (sort_key f (rev xs)))" by (rule sorted_sort_key)
  then have "sorted_wrt (\<lambda>a b. f a \<le> f b) (sort_key f (rev xs))"
    by (simp add: sorted_wrt_map)
  then show ?thesis
    by (simp add: sorted_reverse_def sorted_wrt_rev)
qed

lemma sorted_reverse_stable:
  "filter (\<lambda>y. f y = k) (sorted_reverse f xs) = filter (\<lambda>y. f y = k) xs"
  by (simp add: sorted_reverse_def rev_filter [symmetric] sort_key_stable)

lemma sorted_langs_set: "set (sorted_langs fbl) = fst ` set fbl"
  by (simp add: sorted_langs_alt sorted_reverse_def)

lemma sorted_langs_distinct: "distinct (map fst fbl) \<Longrightarrow> distinct (sorted_langs fbl)"
  by (simp add: sorted_langs_alt sorted_reverse_def)

lemma concat_map_split:
  "x \<in> set xs \<Longrightarrow> \<exists>pre post. concat (map f xs) = pre @ f x @ post"
proof -
  assume "x \<in> set xs"
  then obtain ys zs where "xs = ys @ x # zs" by (auto simp: in_set_conv_decomp)
  then have "concat (map f xs) = concat (map f ys) @ f x @ concat (map f zs)" by simp
  then show ?thesis by blast
qed


section \<open>Every collected file is written once\<close>

lemma mset_filter_disjoint:
  "(\<And>x. x \<in> set xs \<Longrightarrow> \<not> (P x \<and> Q x)) \<Longrightarrow>
     mset (filter P xs) + mset (filter Q xs) = mset (filter (\<lambda>x. P x \<or> Q x) xs)"
  by (induction xs) auto

lemma mset_concat_filter_keys:
  "distinct ls \<Longrightarrow>
     mset (concat (map (\<lambda>l. filter (\<lambda>x. fst x = l) xs) ls)) = mset (filter (\<lambda>x. fst x \<in> set ls) xs)"
proof (induction ls)
  case Nil
  then show ?case by simp
next
  case (Cons l ls)
  have "mset (filter (\<lambda>x. fst x = l) xs) + mset (filter (\<lambda>x. fst x \<in> set ls) xs) =
        mset (filter (\<lambda>x. fst x = l \<or> fst x \<in> set ls) xs)"
    using Cons.prems by (intro mset_filter_disjoint) auto
  then show ?case using Cons by simp
qed

lemma entries_dd_fill:
  "entries ls (dd_fill xs []) = concat (map (\<lambda>l. filter (\<lambda>x. fst x = l) xs) ls)"
proof -
  have "map (Pair l) (map snd (filter (\<lambda>x. fst x = l) xs)) = filter (\<lambda>x. fst x = l) xs" for l
    by (induction xs) auto
  then show ?thesis by (simp add: entries_def bucket_of_dd_fill)
qed

lemma mset_entries_collect_files:
  "mset (entries (sorted_langs (collect_files self p d)) (collect_files self p d)) =
     mset (collected self p d)"
proof -
  let ?fbl = "collect_files self p d" and ?xs = "collected self p d"
  have d: "distinct (sorted_langs ?fbl)"
    using collect_files_distinct by (rule sorted_langs_distinct)
  have s: "set (sorted_langs ?fbl) = fst ` set ?xs"
    by (simp add: sorted_langs_set collect_files_keys)
  have "mset (entries (sorted_langs ?fbl) ?fbl) =
        mset (filter (\<lambda>x. fst x \<in> set (sorted_langs ?fbl)) ?xs)"
    unfolding collect_files_collected entries_dd_fill
    using d [unfolded collect_files_collected] by (rule mset_concat_filter_keys)
  also have "filter (\<lambda>x. fst x \<in> set (sorted_langs ?fbl)) ?xs = ?xs"
    unfolding s by (simp add: filter_id_conv)
  finally show ?thesis .
qed

lemma in_entries_iff:
  "x \<in> set (entries (sorted_langs (collect_files self p d)) (collect_files self p d)) \<longleftrightarrow>
     x \<in> set (collected self p d)"
  using arg_cong [OF mset_entries_collect_files, of set_mset] by simp

lemma tree_dirs_fs_tree:
  "fs_tree d \<Longrightarrow> x \<in> set (tree_dirs e p d) \<Longrightarrow> fs_tree (snd (snd x))"
proof (induction d arbitrary: e p x)
  case (Dir n fs ds)
  from Dir.prems(2) consider "x = (p, e, Dir n fs ds)"
    | d' where "d' \<in> set ds" "x \<in> set (tree_dirs (e \<or> dname d' \<in> exclude_dirs) (join p (dname d')) d')"
    by auto
  then show ?case
  proof cases
    case 1
    then show ?thesis using Dir.prems(1) by simp
  next
    case 2
    from fs_tree_sub [OF Dir.prems(1) 2(1)] have "fs_tree d'" by simp
    then show ?thesis using 2(2) by (rule Dir.IH [OF 2(1)])
  qed
qed

lemma record_of_key: "x \<in> set (record_of self q e) \<Longrightarrow> rkey x = (q, fst e)"
  by (auto simp: record_of_def rkey_def split: option.splits if_splits)

lemma record_of_distinct: "distinct (map rkey (record_of self q e))"
  by (auto simp: record_of_def split: option.splits)

lemma fs_tree_files: "fs_tree d \<Longrightarrow> distinct (map fst (files d))"
  by (cases d) simp

lemma collected_keys_distinct:
  assumes "fs_tree d"
  shows "distinct (map rkey (collected self p d))"
  unfolding collected_alt
proof (rule distinct_map_concat [where k = fst])
  show "distinct (map fst (os_walk p d))" using assms by (rule os_walk_distinct)
next
  fix t assume t: "t \<in> set (os_walk p d)"
  from os_walk_paths [OF t] obtain d' where
    d': "(fst t, False, d') \<in> set (tree_dirs False p d)" "snd (snd t) = files d'" by blast
  from tree_dirs_fs_tree [OF assms d'(1)] have "distinct (map fst (snd (snd t)))"
    unfolding d'(2) by (simp add: fs_tree_files)
  then show "distinct (map rkey (concat (map (record_of self (fst t)) (snd (snd t)))))"
  proof (rule distinct_map_concat [where k = fst])
    show "distinct (map rkey (record_of self (fst t) e))" for e
      by (rule record_of_distinct)
    show "fst x = fst y"
      if "a \<in> set (record_of self (fst t) x)" "b \<in> set (record_of self (fst t) y)" "rkey a = rkey b"
      for x y a b
      using record_of_key [OF that(1)] record_of_key [OF that(2)] that(3) by simp
  qed
next
  fix x y :: "str \<times> str list \<times> (str \<times> str option) list" and a b :: "str \<times> file_record"
  assume "a \<in> set (concat (map (record_of self (fst x)) (snd (snd x))))"
    "b \<in> set (concat (map (record_of self (fst y)) (snd (snd y))))" "rkey a = rkey b"
  then obtain e e' where "a \<in> set (record_of self (fst x) e)" "b \<in> set (record_of self (fst y) e')"
    and ab: "rkey a = rkey b" by auto
  then have "rkey a = (fst x, fst e)" "rkey b = (fst y, fst e')"
    by (auto dest: record_of_key)
  with ab show "fst x = fst y" by simp
qed

lemma distinct_map_filter_single:
  "distinct (map g xs) \<Longrightarrow> x \<in> set xs \<Longrightarrow> filter (\<lambda>y. g y = g x) xs = [x]"
proof (induction xs)
  case Nil
  then show ?case by simp
next
  case (Cons a xs)
  show ?case
  proof (cases "a = x")
    case True
    then have "filter (\<lambda>y. g y = g x) xs = []"
      using Cons.prems(1) by (auto simp: filter_empty_conv image_iff)
    with True show ?thesis by simp
  next
    case False
    then have "x \<in> set xs" using Cons.prems(2) by simp
    then have "g a \<noteq> g x" using Cons.prems(1) by force
    then show ?thesis using Cons \<open>x \<in> set xs\<close> by simp
  qed
qed



section \<open>The calls of write\<close>

lemma encodable_Nil [simp]: "encodable []"
  by (simp add: encodable_def)

lemma encodable_Cons [simp]: "encodable (c # s) \<longleftrightarrow> (c < 55296 \<or> 57343 < c) \<and> encodable s"
  by (simp add: encodable_def)

lemma encodable_append [simp]: "encodable (a @ b) \<longleftrightarrow> encodable a \<and> encodable b"
  by (simp add: encodable_def)

lemma encodable_replicate [simp]: "c < 55296 \<Longrightarrow> encodable (replicate n c)"
  by (induction n) simp_all

lemma encodable_upper [simp]: "encodable (upper s) \<longleftrightarrow> encodable s"
  by (induction s) (auto simp: upper_def upper_cp_def)

lemma encodable_lower [simp]: "encodable (lower s) \<longleftrightarrow> encodable s"
  by (induction s) (auto simp: lower_def lower_cp_def)

lemma encodable_box [simp]: "encodable (create_ascii_box text width dl) \<longleftrightarrow> encodable text"
  unfolding box_shape by simp

lemma dashes: "str_mul (ustr ''-'') 80 = replicate 80 45"
  using str_mul_single [of 45 80] by simp

lemma concat_write_calls_file:
  "concat (write_calls_file lang r) =
     (case r of (filename, dirpath, content) \<Rightarrow>
        filename @ [nl] @ dirpath @ [nl] @ ustr ''```'' @ lower lang @ [nl] @ content
        @ [nl] @ ustr ''```'' @ [nl, nl] @ replicate 80 45 @ [nl, nl])"
  by (cases r) (simp add: write_calls_file_def dashes [simplified])

lemma concat_write_calls_lang:
  "concat (write_calls_lang fbl lang) =
     create_ascii_box lang 40 True
     @ concat (map (\<lambda>(filename, dirpath, content).
          filename @ [nl] @ dirpath @ [nl] @ ustr ''```'' @ lower lang @ [nl] @ content
          @ [nl] @ ustr ''```'' @ [nl, nl] @ replicate 80 45 @ [nl, nl]) (bucket_of fbl lang))
     @ [nl, nl]"
proof -
  have "concat (concat (map (write_calls_file lang) rs)) =
        concat (map (\<lambda>(filename, dirpath, content).
          filename @ [nl] @ dirpath @ [nl] @ ustr ''```'' @ lower lang @ [nl] @ content
          @ [nl] @ ustr ''```'' @ [nl, nl] @ replicate 80 45 @ [nl, nl]) rs)" for rs
    by (induction rs) (simp_all only: list.map concat.simps concat_append concat_write_calls_file)
  then show ?thesis
    by (simp only: write_calls_lang_def concat_append concat.simps append_Nil2 append_assoc)
qed

lemma concat_write_calls:
  "concat (write_calls project_name langs fbl) =
     (create_ascii_box (ustr ''Project Codebase Overview'') 40 False
      @ ustr ''# '' @ project_name @ ustr '' Codebase Manifest'' @ [nl, nl]
      @ replicate 40 9552 @ [nl, nl])
     @ concat (map (\<lambda>lang.
          create_ascii_box lang 40 True
          @ concat (map (\<lambda>(filename, dirpath, content).
               filename @ [nl] @ dirpath @ [nl] @ ustr ''```'' @ lower lang @ [nl] @ content
               @ [nl] @ ustr ''```'' @ [nl, nl] @ replicate 80 45 @ [nl, nl]) (bucket_of fbl lang))
          @ [nl, nl]) langs)"
proof -
  have "concat (concat (map (write_calls_lang fbl) ls)) =
        concat (map (\<lambda>lang. concat (write_calls_lang fbl lang)) ls)" for ls
    by (induction ls) simp_all
  moreover have "str_mul [9552] 40 = replicate 40 9552"
    using str_mul_single [of 9552 40] by simp
  ultimately show ?thesis
    by (simp only: write_calls_def concat_append concat.simps append_Nil2 append_assoc
          concat_write_calls_lang)
qed

lemma generate_Inr_document:
  assumes "generate_codebase_markdown file e tree = Inr res"
  shows "document res =
     concat (write_calls (basename (dirname file))
        (sorted_langs (collect_files (basename file) (dirname file) tree))
        (collect_files (basename file) (dirname file) tree))"
  using assms by (auto simp: generate_codebase_markdown_def Let_def split: if_splits)

lemma generate_completes:
  assumes "can_open e"
    and "list_all encodable (write_calls (basename (dirname file))
        (sorted_langs (collect_files (basename file) (dirname file) tree))
        (collect_files (basename file) (dirname file) tree))"
    and "\<And>line. stdout_ok e line"
  shows "\<exists>res. generate_codebase_markdown file e tree = Inr res"
  using assms by (simp add: generate_codebase_markdown_def Let_def)

lemma encodable_write_calls_file:
  "list_all encodable (write_calls_file lang r) \<longleftrightarrow>
     encodable lang \<and> encodable (fst r) \<and> encodable (fst (snd r)) \<and> encodable (snd (snd r))"
  by (cases r) (auto simp: write_calls_file_def dashes [simplified])

lemma encodable_write_calls_lang:
  "list_all encodable (write_calls_lang fbl lang) \<longleftrightarrow>
     encodable lang \<and>
     (\<forall>r \<in> set (bucket_of fbl lang).
        encodable (fst r) \<and> encodable (fst (snd r)) \<and> encodable (snd (snd r)))"
  by (auto simp: write_calls_lang_def list_all_iff encodable_write_calls_file [unfolded list_all_iff])

lemma encodable_write_calls:
  "list_all encodable (write_calls project_name langs fbl) \<longleftrightarrow>
     encodable project_name \<and>
     (\<forall>lang \<in> set langs. encodable lang \<and>
        (\<forall>r \<in> set (bucket_of fbl lang).
           encodable (fst r) \<and> encodable (fst (snd r)) \<and> encodable (snd (snd r))))"
proof -
  have "str_mul [9552] 40 = replicate 40 9552"
    using str_mul_single [of 9552 40] by simp
  then show ?thesis
    by (auto simp: write_calls_def list_all_iff encodable_write_calls_lang [unfolded list_all_iff])
qed


lemma lower_alt: "lower s = map (\<lambda>c. if 65 \<le> c \<and> c \<le> 90 then c + 32 else c) s"
  by (induction s) (simp_all add: lower_def lower_cp_def)

lemma complete_document_text:
  assumes "complete_document (generate_codebase_markdown file e tree) = Some doc"
  shows "doc =
     concat (write_calls (basename (dirname file))
        (sorted_langs (collect_files (basename file) (dirname file) tree))
        (collect_files (basename file) (dirname file) tree))"
  using assms
  by (auto simp: complete_document_def generate_codebase_markdown_def Let_def split: if_splits)


section \<open>The run on the small project\<close>

lemma example_dirname: "dirname example_file = ustr ''/home/u/proj''"
  by (simp add: example_file_def dirname_def rfind_def Let_def)

lemma example_basename: "basename example_file = ustr ''search_copy.py''"
  by (simp add: example_file_def basename_def rfind_def)

lemma example_fs_tree: "fs_tree example_tree"
  by (simp add: example_tree_def valid_name_def)

lemma example_tree_dirs:
  "tree_dirs False (ustr ''/home/u/proj'') example_tree =
     [(ustr ''/home/u/proj'', False, example_tree),
      (ustr ''/home/u/proj/node_modules'', True,
         Dir (ustr ''node_modules'') [(ustr ''lib.js'', Some (ustr ''x''))] []),
      (ustr ''/home/u/proj/src'', False,
         Dir (ustr ''src'')
           [(ustr ''app.js'', Some (ustr ''ab'')), (ustr ''util.h'', Some (ustr ''cd''))] [])]"
  by (simp add: example_tree_def join_def exclude_dirs_def)

lemma example_os_walk:
  "os_walk (ustr ''/home/u/proj'') example_tree =
     [(ustr ''/home/u/proj'', [ustr ''src''], files example_tree),
      (ustr ''/home/u/proj/src'', [],
         [(ustr ''app.js'', Some (ustr ''ab'')), (ustr ''util.h'', Some (ustr ''cd''))])]"
  by (simp add: example_tree_def join_def exclude_dirs_def)

lemma example_exts:
  "ext_to_lang (lower (snd (splitext (ustr ''main.py'')))) = Some (ustr ''Python'')"
  "ext_to_lang (lower (snd (splitext (ustr ''search_copy.py'')))) = Some (ustr ''Python'')"
  "ext_to_lang (lower (snd (splitext (ustr ''image.png'')))) = None"
  "ext_to_lang (lower (snd (splitext (ustr ''locked.rs'')))) = Some (ustr ''Rust'')"
  "ext_to_lang (lower (snd (splitext (ustr ''app.js'')))) = Some (ustr ''JavaScript'')"
  "ext_to_lang (lower (snd (splitext (ustr ''util.h'')))) = Some (ustr ''C'')"
  by (simp_all add: splitext_def rfind_def Let_def ext_to_lang_def invert_extensions_def
        lang_extensions_def lower_def lower_cp_def)


lemma example_collect_files:
  "collect_files (ustr ''search_copy.py'') (ustr ''/home/u/proj'') example_tree =
     [(ustr ''Python'', [(ustr ''main.py'', ustr ''/home/u/proj'', ustr ''print(1)'')]),
      (ustr ''JavaScript'', [(ustr ''app.js'', ustr ''/home/u/proj/src'', ustr ''ab'')]),
      (ustr ''C'', [(ustr ''util.h'', ustr ''/home/u/proj/src'', ustr ''cd'')])]"
  unfolding collect_files_def example_os_walk
  by (simp add: example_tree_def process_file_def Let_def example_exts [simplified])


lemma example_project_name: "basename (ustr ''/home/u/proj'') = ustr ''proj''"
  by (simp add: basename_def rfind_def)

lemma sorted_langs_single: "sorted_langs [(k, rs)] = [k]"
  by (simp add: sorted_langs_def lang_volumes_def sorted_reverse_def Let_def)

lemma example_sections:
  "sections (collect_files (ustr ''search_copy.py'') (ustr ''/home/u/proj'') example_tree) =
     [(ustr ''Python'', [(ustr ''main.py'', ustr ''/home/u/proj'', ustr ''print(1)'')]),
      (ustr ''JavaScript'', [(ustr ''app.js'', ustr ''/home/u/proj/src'', ustr ''ab'')]),
      (ustr ''C'', [(ustr ''util.h'', ustr ''/home/u/proj/src'', ustr ''cd'')])]"
  unfolding example_collect_files
  by (simp add: sections_def sorted_langs_def lang_volumes_def volume_of_def sorted_reverse_def
        Let_def bucket_of_def)

lemma example_generate:
  "\<exists>res. generate_codebase_markdown example_file example_env example_tree = Inr res"
proof (rule generate_completes)
  show "can_open example_env" by (simp add: example_env_def)
  show "stdout_ok example_env line" for line by (simp add: example_env_def)
  show "list_all encodable (write_calls (basename (dirname example_file))
        (sorted_langs (collect_files (basename example_file) (dirname example_file) example_tree))
        (collect_files (basename example_file) (dirname example_file) example_tree))"
    unfolding encodable_write_calls sorted_langs_set example_basename example_dirname
      example_project_name example_collect_files
    by (simp add: bucket_of_def)
qed

lemma example_complete:
  "\<exists>doc. complete_document (generate_codebase_markdown example_file example_env example_tree)
           = Some doc"
  using example_generate by (auto simp: complete_document_def)

lemma surrogate_file_collect:
  "collect_files (ustr ''search_copy.py'') (ustr ''/home/u/proj'') surrogate_file_tree =
     [(ustr ''Python'', [([97, 56448] @ ustr ''.py'', ustr ''/home/u/proj'', ustr ''x'')])]"
proof -
  have "ext_to_lang (lower (snd (splitext ([97, 56448] @ ustr ''.py'')))) = Some (ustr ''Python'')"
    by (simp add: splitext_def rfind_def Let_def ext_to_lang_def invert_extensions_def
        lang_extensions_def lower_def lower_cp_def)
  then show ?thesis
    by (simp add: collect_files_def surrogate_file_tree_def process_file_def Let_def)
qed

lemma surrogate_dir_collect:
  "collect_files (ustr ''search_copy.py'') (ustr ''/home/u/proj'') surrogate_dir_tree =
     [(ustr ''Python'', [(ustr ''main.py'', ustr ''/home/u/proj/'' @ [115, 56448], ustr ''print(1)'')])]"
  by (simp add: collect_files_def surrogate_dir_tree_def process_file_def Let_def join_def
        exclude_dirs_def example_exts [simplified])

lemma surrogate_file_run:
  "generate_codebase_markdown example_file example_env surrogate_file_tree =
     Inl (WriteFailed
       (create_ascii_box (ustr ''Project Codebase Overview'') 40 False
        @ ustr ''# proj Codebase Manifest'' @ [nl, nl]
        @ replicate 40 9552 @ [nl, nl]
        @ create_ascii_box (ustr ''Python'') 40 True))"
  unfolding generate_codebase_markdown_def Let_def example_dirname example_basename
    example_project_name surrogate_file_collect sorted_langs_single
  by (simp add: write_calls_def write_calls_lang_def write_calls_file_def bucket_of_def
        example_env_def str_mul_single)

lemma surrogate_dir_run:
  "generate_codebase_markdown example_file example_env surrogate_dir_tree =
     Inl (WriteFailed
       (create_ascii_box (ustr ''Project Codebase Overview'') 40 False
        @ ustr ''# proj Codebase Manifest'' @ [nl, nl]
        @ replicate 40 9552 @ [nl, nl]
        @ create_ascii_box (ustr ''Python'') 40 True
        @ ustr ''main.py'' @ [nl]))"
  unfolding generate_codebase_markdown_def Let_def example_dirname example_basename
    example_project_name surrogate_dir_collect sorted_langs_single
  by (simp add: write_calls_def write_calls_lang_def write_calls_file_def bucket_of_def
        example_env_def str_mul_single)


section \<open>Excluded directories are never entered\<close>

text \<open>
  Claim C3. Let \<open>tree\<close> be a tree of a file system and \<open>d\<close> a directory of it, at path
  \<open>p\<close>, that is a subdirectory with a name in \<open>exclude_dirs\<close> or lies below such a
  subdirectory, at any depth. Then the walk never yields \<open>p\<close>, so the entries of \<open>d\<close> are
  never looked at; no bucket has a record of a file of directory \<open>p\<close>, and no section
  of the document has an entry for one, whatever its extension. The root directory is
  the start of the walk and is not a subdirectory: its own name is not examined.
\<close>

theorem excluded_directory_never_visited:
  assumes "fs_tree tree" and "(p, True, d) \<in> set (tree_dirs False root_dir tree)"
  shows "p \<notin> fst ` set (os_walk root_dir tree) \<and>
         (\<forall>lang rs f c. (lang, rs) \<in> set (collect_files self root_dir tree) \<longrightarrow>
                        (f, p, c) \<notin> set rs) \<and>
         (\<forall>lang f c. (lang, (f, p, c)) \<notin>
            set (entries (sorted_langs (collect_files self root_dir tree))
                         (collect_files self root_dir tree)))"
proof -
  have w: "p \<notin> fst ` set (os_walk root_dir tree)"
    using assms by (rule excluded_not_walked)
  have c: "(lang, (f, p, c)) \<notin> set (collected self root_dir tree)" for lang f c
  proof
    assume "(lang, (f, p, c)) \<in> set (collected self root_dir tree)"
    then obtain dirnames fs where "(p, dirnames, fs) \<in> set (os_walk root_dir tree)"
      unfolding in_collected_iff by blast
    then have "p \<in> fst ` set (os_walk root_dir tree)" by force
    with w show False ..
  qed
  have b: "(f, p, c) \<notin> set rs" if "(lang, rs) \<in> set (collect_files self root_dir tree)"
    for lang rs f c
    using c [of lang f c] that in_collect_files_iff [of lang self root_dir tree "(f, p, c)"]
    by blast
  have e: "(lang, (f, p, c)) \<notin>
      set (entries (sorted_langs (collect_files self root_dir tree))
                   (collect_files self root_dir tree))" for lang f c
    unfolding in_entries_iff by (rule c)
  show ?thesis using w b e by blast
qed

theorem excluded_directory_never_visited_witness:
  "fs_tree example_tree \<and>
   (ustr ''/home/u/proj/node_modules'', True,
      Dir (ustr ''node_modules'') [(ustr ''lib.js'', Some (ustr ''x''))] [])
     \<in> set (tree_dirs False (ustr ''/home/u/proj'') example_tree) \<and>
   ustr ''/home/u/proj/node_modules''
     \<notin> fst ` set (os_walk (ustr ''/home/u/proj'') example_tree) \<and>
   (ustr ''JavaScript'', (ustr ''lib.js'', ustr ''/home/u/proj/node_modules'', ustr ''x''))
     \<notin> set (entries
           (sorted_langs (collect_files (ustr ''search_copy.py'') (ustr ''/home/u/proj'') example_tree))
           (collect_files (ustr ''search_copy.py'') (ustr ''/home/u/proj'') example_tree))"
proof -
  have h2: "(ustr ''/home/u/proj/node_modules'', True,
      Dir (ustr ''node_modules'') [(ustr ''lib.js'', Some (ustr ''x''))] [])
     \<in> set (tree_dirs False (ustr ''/home/u/proj'') example_tree)"
    unfolding example_tree_dirs by simp
  note t = excluded_directory_never_visited [OF example_fs_tree h2, of "ustr ''search_copy.py''"]
  show ?thesis
    by (intro conjI example_fs_tree h2 t [THEN conjunct1]
          t [THEN conjunct2, THEN conjunct2, THEN spec, THEN spec, THEN spec])
qed


section \<open>The script itself is never collected\<close>

text \<open>
  Claim C8. A record whose file name equals \<open>self\<close>, the base name of the script, is in
  no bucket and in no section of the document, whatever its directory and content.
\<close>

theorem own_script_never_collected:
  assumes "(lang, rs) \<in> set (collect_files self root_dir tree)"
  shows "(self, dirpath, content) \<notin> set rs \<and>
         (lang', (self, dirpath, content)) \<notin>
            set (entries (sorted_langs (collect_files self root_dir tree))
                         (collect_files self root_dir tree))"
proof -
  have c: "(l, (self, dirpath, content)) \<notin> set (collected self root_dir tree)" for l
    unfolding in_collected_iff by blast
  have "(self, dirpath, content) \<notin> set rs"
    using c [of lang] assms in_collect_files_iff [of lang self root_dir tree "(self, dirpath, content)"]
    by blast
  moreover have "(lang', (self, dirpath, content)) \<notin>
            set (entries (sorted_langs (collect_files self root_dir tree))
                         (collect_files self root_dir tree))"
    unfolding in_entries_iff by (rule c)
  ultimately show ?thesis ..
qed

theorem own_script_never_collected_witness:
  "(ustr ''Python'', [(ustr ''main.py'', ustr ''/home/u/proj'', ustr ''print(1)'')])
     \<in> set (collect_files (ustr ''search_copy.py'') (ustr ''/home/u/proj'') example_tree) \<and>
   (ustr ''search_copy.py'', Some (ustr ''import os'')) \<in> set (files example_tree) \<and>
   (ustr ''search_copy.py'', ustr ''/home/u/proj'', ustr ''import os'')
     \<notin> set [(ustr ''main.py'', ustr ''/home/u/proj'', ustr ''print(1)'')] \<and>
   (ustr ''Python'', (ustr ''search_copy.py'', ustr ''/home/u/proj'', ustr ''import os''))
     \<notin> set (entries
           (sorted_langs (collect_files (ustr ''search_copy.py'') (ustr ''/home/u/proj'') example_tree))
           (collect_files (ustr ''search_copy.py'') (ustr ''/home/u/proj'') example_tree))"
proof -
  have h1: "(ustr ''Python'', [(ustr ''main.py'', ustr ''/home/u/proj'', ustr ''print(1)'')])
     \<in> set (collect_files (ustr ''search_copy.py'') (ustr ''/home/u/proj'') example_tree)"
    unfolding example_collect_files by simp
  have h0: "(ustr ''search_copy.py'', Some (ustr ''import os'')) \<in> set (files example_tree)"
    by (simp add: example_tree_def)
  note t = own_script_never_collected [OF h1]
  show ?thesis
    by (intro conjI h1 h0 t [THEN conjunct1] t [THEN conjunct2])
qed


section \<open>Every collected file has a registered extension\<close>

text \<open>
  Claim C10. Every record in any bucket has a file name whose lower-cased extension is
  a key of the registry, mapped to the label of the bucket. The extension \<open>.md\<close> is not
  a key and is the extension of the output file name \<open>basename root_dir + ".codebase.md"\<close>,
  so no record is a \<open>.md\<close> file and none is the output file of an earlier run.
\<close>

theorem collected_extension_registered:
  assumes "(lang, rs) \<in> set (collect_files self root_dir tree)"
    and "(filename, dirpath, content) \<in> set rs"
  shows "ext_to_lang (lower (snd (splitext filename))) = Some lang \<and>
         lower (snd (splitext filename)) \<noteq> ustr ''.md'' \<and>
         filename \<noteq> basename root_dir @ ustr ''.codebase.md'' \<and>
         ext_to_lang (ustr ''.md'') = None \<and>
         lower (snd (splitext (basename root_dir @ ustr ''.codebase.md''))) = ustr ''.md''"
proof -
  from assms have "(lang, (filename, dirpath, content)) \<in> set (collected self root_dir tree)"
    using in_collect_files_iff by blast
  then have e: "ext_to_lang (lower (snd (splitext filename))) = Some lang"
    unfolding in_collected_iff by blast
  have o: "lower (snd (splitext (basename root_dir @ ustr ''.codebase.md''))) = ustr ''.md''"
    unfolding splitext_codebase_md by (rule lower_md)
  from e have m: "lower (snd (splitext filename)) \<noteq> ustr ''.md''"
    using md_not_registered by auto
  then have "filename \<noteq> basename root_dir @ ustr ''.codebase.md''"
    using o by auto
  with e m o md_not_registered show ?thesis by blast
qed

theorem collected_extension_registered_witness:
  "(ustr ''C'', [(ustr ''util.h'', ustr ''/home/u/proj/src'', ustr ''cd'')])
     \<in> set (collect_files (ustr ''search_copy.py'') (ustr ''/home/u/proj'') example_tree) \<and>
   (ustr ''util.h'', ustr ''/home/u/proj/src'', ustr ''cd'')
     \<in> set [(ustr ''util.h'', ustr ''/home/u/proj/src'', ustr ''cd'')] \<and>
   ext_to_lang (lower (snd (splitext (ustr ''util.h'')))) = Some (ustr ''C'') \<and>
   ustr ''util.h'' \<noteq> basename (ustr ''/home/u/proj'') @ ustr ''.codebase.md''"
proof -
  have h1: "(ustr ''C'', [(ustr ''util.h'', ustr ''/home/u/proj/src'', ustr ''cd'')])
     \<in> set (collect_files (ustr ''search_copy.py'') (ustr ''/home/u/proj'') example_tree)"
    unfolding example_collect_files by simp
  have h2: "(ustr ''util.h'', ustr ''/home/u/proj/src'', ustr ''cd'')
     \<in> set [(ustr ''util.h'', ustr ''/home/u/proj/src'', ustr ''cd'')]" by simp
  note t = collected_extension_registered [OF h1 h2]
  show ?thesis
    by (intro conjI h1 h2 t [THEN conjunct1] t [THEN conjunct2, THEN conjunct2, THEN conjunct1])
qed


section \<open>The order of the languages\<close>

text \<open>
  Claim C4. For every dictionary of buckets, the ordered language list is sorted by
  descending total character count of the buckets, it has the labels of the
  dictionary, each as often as the dictionary has it, and the languages with a given
  total \<open>v\<close> stand in it in the order in which their buckets were inserted into the
  dictionary: the sort is stable.
\<close>

theorem sorted_langs_descending_stable:
  "sorted_wrt (\<lambda>a b. total_chars (bucket_of fbl a) \<ge> total_chars (bucket_of fbl b))
     (sorted_langs fbl) \<and>
   mset (sorted_langs fbl) = mset (map fst fbl) \<and>
   filter (\<lambda>l. total_chars (bucket_of fbl l) = v) (sorted_langs fbl) =
     filter (\<lambda>l. total_chars (bucket_of fbl l) = v) (map fst fbl)"
  unfolding sorted_langs_alt
  by (intro conjI sorted_reverse_descending mset_sorted_reverse sorted_reverse_stable)


section \<open>Every eligible file is written exactly once\<close>

text \<open>
  Claim C1, as stated, at the project whose only file is \<open>a\udc80.py\<close>, a name with a
  byte that is not UTF-8: the file lies in the root, is read successfully, has the
  recognised extension \<open>.py\<close> and is not the script, and the run ends in the
  \<open>UnicodeEncodeError\<close> of the call that writes the file name. The output file then
  holds the banner, the heading, the separator and the banner of Python, and no entry
  of the file.
\<close>

theorem eligible_file_with_surrogate_name_not_written:
  "fs_tree surrogate_file_tree \<and>
   (dirname example_file, False, surrogate_file_tree)
     \<in> set (tree_dirs False (dirname example_file) surrogate_file_tree) \<and>
   ([97, 56448] @ ustr ''.py'', Some (ustr ''x'')) \<in> set (files surrogate_file_tree) \<and>
   ext_to_lang (lower (snd (splitext ([97, 56448] @ ustr ''.py'')))) = Some (ustr ''Python'') \<and>
   [97, 56448] @ ustr ''.py'' \<noteq> basename example_file \<and>
   generate_codebase_markdown example_file example_env surrogate_file_tree =
     Inl (WriteFailed
       (create_ascii_box (ustr ''Project Codebase Overview'') 40 False
        @ ustr ''# proj Codebase Manifest'' @ [nl, nl]
        @ replicate 40 9552 @ [nl, nl]
        @ create_ascii_box (ustr ''Python'') 40 True))"
proof -
  have "fs_tree surrogate_file_tree"
    by (simp add: surrogate_file_tree_def)
  moreover have "(dirname example_file, False, surrogate_file_tree)
     \<in> set (tree_dirs False (dirname example_file) surrogate_file_tree)"
    by (simp add: surrogate_file_tree_def)
  moreover have "([97, 56448] @ ustr ''.py'', Some (ustr ''x'')) \<in> set (files surrogate_file_tree)"
    by (simp add: surrogate_file_tree_def)
  moreover have
    "ext_to_lang (lower (snd (splitext ([97, 56448] @ ustr ''.py'')))) = Some (ustr ''Python'')"
    by (simp add: splitext_def rfind_def Let_def ext_to_lang_def invert_extensions_def
        lang_extensions_def lower_def lower_cp_def)
  moreover have "[97, 56448] @ ustr ''.py'' \<noteq> basename example_file"
    unfolding example_basename by simp
  ultimately show ?thesis
    using surrogate_file_run by (intro conjI)
qed

text \<open>
  Claim C1, amended: for every run that writes its document in full (the output file
  is opened and every string written to it can be encoded as UTF-8), every file under
  the root whose extension is recognised by the registry, which is not
  under an excluded directory, is not named like the script and is read successfully,
  appears in exactly one language section of the output document, exactly once.

  Let \<open>tree\<close> be a tree of a file system, \<open>d\<close> a directory of it at path \<open>p\<close> that does not
  lie in or below an excluded directory, and \<open>f\<close> an entry of \<open>d\<close> that is read with
  content \<open>c\<close>, whose extension is recognised with label \<open>lang\<close> and whose name is not
  the name of the script (the test by which the program decides that a file is the
  tool itself). If the run writes its document \<open>doc\<close> in full, then \<open>doc\<close> is the
  banner, the heading and the separator followed by the text of the sections, one for
  each language, no language twice; the text of a section is the banner of the
  language, the entries of its records and the blank spacing; and among the records of
  all sections there is exactly one for the file \<open>f\<close> of directory \<open>p\<close>: it stands in
  the section of \<open>lang\<close> and carries the content \<open>c\<close>.
\<close>

theorem eligible_file_written_once:
  assumes "fs_tree tree"
    and "(p, False, d) \<in> set (tree_dirs False (dirname file) tree)"
    and "(f, Some c) \<in> set (files d)"
    and "ext_to_lang (lower (snd (splitext f))) = Some lang"
    and "f \<noteq> basename file"
    and "complete_document (generate_codebase_markdown file e tree) = Some doc"
  shows "doc =
           (create_ascii_box (ustr ''Project Codebase Overview'') 40 False
            @ ustr ''# '' @ basename (dirname file) @ ustr '' Codebase Manifest'' @ [nl, nl]
            @ replicate 40 9552 @ [nl, nl])
           @ concat (map (\<lambda>(l, rs).
                create_ascii_box l 40 True
                @ concat (map (\<lambda>(filename, dirpath, content).
                     filename @ [nl] @ dirpath @ [nl] @ ustr ''```'' @ map (\<lambda>c. if 65 \<le> c \<and> c \<le> 90 then c + 32 else c) l
                     @ [nl] @ content
                     @ [nl] @ ustr ''```'' @ [nl, nl] @ replicate 80 45 @ [nl, nl]) rs)
                @ [nl, nl])
              (sections (collect_files (basename file) (dirname file) tree))) \<and>
         distinct (map fst (sections (collect_files (basename file) (dirname file) tree))) \<and>
         filter (\<lambda>(l, (f', p', c')). f' = f \<and> p' = p)
           (concat (map (\<lambda>(l, rs). map (Pair l) rs)
              (sections (collect_files (basename file) (dirname file) tree))))
         = [(lang, (f, p, c))]"
proof (intro conjI)
  let ?fbl = "collect_files (basename file) (dirname file) tree"
  let ?xs = "collected (basename file) (dirname file) tree"
  let ?x = "(lang, (f, p, c))"
  show "doc =
           (create_ascii_box (ustr ''Project Codebase Overview'') 40 False
            @ ustr ''# '' @ basename (dirname file) @ ustr '' Codebase Manifest'' @ [nl, nl]
            @ replicate 40 9552 @ [nl, nl])
           @ concat (map (\<lambda>(l, rs).
                create_ascii_box l 40 True
                @ concat (map (\<lambda>(filename, dirpath, content).
                     filename @ [nl] @ dirpath @ [nl] @ ustr ''```'' @ map (\<lambda>c. if 65 \<le> c \<and> c \<le> 90 then c + 32 else c) l
                     @ [nl] @ content
                     @ [nl] @ ustr ''```'' @ [nl, nl] @ replicate 80 45 @ [nl, nl]) rs)
                @ [nl, nl])
              (sections ?fbl))"
    unfolding complete_document_text [OF assms(6)] concat_write_calls lower_alt
    by (simp add: sections_def comp_def)
  show "distinct (map fst (sections ?fbl))"
    using sorted_langs_distinct [OF collect_files_distinct, of "basename file" "dirname file" tree]
    by (simp add: sections_def comp_def)
  have s: "concat (map (\<lambda>(l, rs). map (Pair l) rs) (sections ?fbl)) =
           entries (sorted_langs ?fbl) ?fbl"
    by (simp add: sections_def entries_def comp_def)
  have P: "(\<lambda>(l, (f', p', c')). f' = f \<and> p' = p) = (\<lambda>y. rkey y = rkey ?x)"
    by (auto simp: rkey_def fun_eq_iff)
  have "(p, filter (\<lambda>d. d \<notin> exclude_dirs) (map dname (subdirs d)), files d)
          \<in> set (os_walk (dirname file) tree)"
    using assms(2) by (rule tree_dirs_visited)
  then have x: "?x \<in> set ?xs"
    unfolding in_collected_iff using assms(3,4,5) by blast
  have e1: "filter (\<lambda>y. rkey y = rkey ?x) ?xs = [?x]"
    using collected_keys_distinct [OF assms(1)] x by (rule distinct_map_filter_single)
  have "mset (filter (\<lambda>y. rkey y = rkey ?x) (entries (sorted_langs ?fbl) ?fbl)) =
        mset (filter (\<lambda>y. rkey y = rkey ?x) ?xs)"
    by (simp add: mset_entries_collect_files)
  also have "\<dots> = {#?x#}" unfolding e1 by simp
  finally have "mset (filter (\<lambda>y. rkey y = rkey ?x) (entries (sorted_langs ?fbl) ?fbl)) = {#?x#}" .
  then show "filter (\<lambda>(l, (f', p', c')). f' = f \<and> p' = p)
           (concat (map (\<lambda>(l, rs). map (Pair l) rs) (sections ?fbl))) = [?x]"
    unfolding P s by (simp only: mset_single_iff)
qed

theorem eligible_file_written_once_witness:
  "\<exists>doc.
     complete_document (generate_codebase_markdown example_file example_env example_tree)
       = Some doc \<and>
     fs_tree example_tree \<and>
     (ustr ''/home/u/proj/src'', False,
        Dir (ustr ''src'')
          [(ustr ''app.js'', Some (ustr ''ab'')), (ustr ''util.h'', Some (ustr ''cd''))] [])
       \<in> set (tree_dirs False (dirname example_file) example_tree) \<and>
     ext_to_lang (lower (snd (splitext (ustr ''app.js'')))) = Some (ustr ''JavaScript'') \<and>
     ustr ''app.js'' \<noteq> basename example_file \<and>
     doc =
       (create_ascii_box (ustr ''Project Codebase Overview'') 40 False
        @ ustr ''# proj Codebase Manifest'' @ [nl, nl]
        @ replicate 40 9552 @ [nl, nl])
       @ (create_ascii_box (ustr ''Python'') 40 True
          @ ustr ''main.py'' @ [nl] @ ustr ''/home/u/proj'' @ [nl] @ ustr ''```python'' @ [nl]
          @ ustr ''print(1)'' @ [nl] @ ustr ''```'' @ [nl, nl] @ replicate 80 45 @ [nl, nl]
          @ [nl, nl])
       @ (create_ascii_box (ustr ''JavaScript'') 40 True
          @ ustr ''app.js'' @ [nl] @ ustr ''/home/u/proj/src'' @ [nl] @ ustr ''```javascript''
          @ [nl] @ ustr ''ab'' @ [nl] @ ustr ''```'' @ [nl, nl] @ replicate 80 45 @ [nl, nl]
          @ [nl, nl])
       @ (create_ascii_box (ustr ''C'') 40 True
          @ ustr ''util.h'' @ [nl] @ ustr ''/home/u/proj/src'' @ [nl] @ ustr ''```c'' @ [nl]
          @ ustr ''cd'' @ [nl] @ ustr ''```'' @ [nl, nl] @ replicate 80 45 @ [nl, nl]
          @ [nl, nl]) \<and>
     filter (\<lambda>(l, (f', p', c')). f' = ustr ''app.js'' \<and> p' = ustr ''/home/u/proj/src'')
       (concat (map (\<lambda>(l, rs). map (Pair l) rs)
          (sections (collect_files (basename example_file) (dirname example_file) example_tree))))
       = [(ustr ''JavaScript'', (ustr ''app.js'', ustr ''/home/u/proj/src'', ustr ''ab''))]"
proof -
  let ?d = "Dir (ustr ''src'')
        [(ustr ''app.js'', Some (ustr ''ab'')), (ustr ''util.h'', Some (ustr ''cd''))] []"
  from example_complete obtain doc where
    r: "complete_document (generate_codebase_markdown example_file example_env example_tree)
          = Some doc" ..
  have h2: "(ustr ''/home/u/proj/src'', False, ?d)
              \<in> set (tree_dirs False (dirname example_file) example_tree)"
    unfolding example_dirname example_tree_dirs by simp
  have h3: "(ustr ''app.js'', Some (ustr ''ab'')) \<in> set (files ?d)" by simp
  have h4: "ext_to_lang (lower (snd (splitext (ustr ''app.js'')))) = Some (ustr ''JavaScript'')"
    by (rule example_exts)
  have h5: "ustr ''app.js'' \<noteq> basename example_file"
    unfolding example_basename by simp
  note t = eligible_file_written_once [OF example_fs_tree h2 h3 h4 h5 r]
  have doc: "doc =
       (create_ascii_box (ustr ''Project Codebase Overview'') 40 False
        @ ustr ''# proj Codebase Manifest'' @ [nl, nl]
        @ replicate 40 9552 @ [nl, nl])
       @ (create_ascii_box (ustr ''Python'') 40 True
          @ ustr ''main.py'' @ [nl] @ ustr ''/home/u/proj'' @ [nl] @ ustr ''```python'' @ [nl]
          @ ustr ''print(1)'' @ [nl] @ ustr ''```'' @ [nl, nl] @ replicate 80 45 @ [nl, nl]
          @ [nl, nl])
       @ (create_ascii_box (ustr ''JavaScript'') 40 True
          @ ustr ''app.js'' @ [nl] @ ustr ''/home/u/proj/src'' @ [nl] @ ustr ''```javascript''
          @ [nl] @ ustr ''ab'' @ [nl] @ ustr ''```'' @ [nl, nl] @ replicate 80 45 @ [nl, nl]
          @ [nl, nl])
       @ (create_ascii_box (ustr ''C'') 40 True
          @ ustr ''util.h'' @ [nl] @ ustr ''/home/u/proj/src'' @ [nl] @ ustr ''```c'' @ [nl]
          @ ustr ''cd'' @ [nl] @ ustr ''```'' @ [nl, nl] @ replicate 80 45 @ [nl, nl]
          @ [nl, nl])"
    unfolding t [THEN conjunct1] example_basename example_dirname example_project_name
      example_sections
    by simp
  show ?thesis
    by (rule exI [where x = doc])
       (intro conjI r example_fs_tree h2 h4 h5 doc t [THEN conjunct2, THEN conjunct2])
qed


section \<open>The entries of a section\<close>

text \<open>
  Claim C5, as stated, at the project whose only file is \<open>main.py\<close> in a directory
  \<open>s\udc80\<close>, a name with a byte that is not UTF-8: the bucket of Python holds the
  record of the file, and the run ends in the \<open>UnicodeEncodeError\<close> of the call that
  writes the directory path. The output file then ends after the file name: it has
  neither the directory path nor the content of the record, no fenced block and no
  dashed line.
\<close>

theorem bucket_record_with_surrogate_path_not_rendered:
  "(ustr ''Python'', [(ustr ''main.py'', ustr ''/home/u/proj/'' @ [115, 56448], ustr ''print(1)'')])
     \<in> set (collect_files (basename example_file) (dirname example_file) surrogate_dir_tree) \<and>
   generate_codebase_markdown example_file example_env surrogate_dir_tree =
     Inl (WriteFailed
       (create_ascii_box (ustr ''Project Codebase Overview'') 40 False
        @ ustr ''# proj Codebase Manifest'' @ [nl, nl]
        @ replicate 40 9552 @ [nl, nl]
        @ create_ascii_box (ustr ''Python'') 40 True
        @ ustr ''main.py'' @ [nl]))"
proof -
  have "(ustr ''Python'',
          [(ustr ''main.py'', ustr ''/home/u/proj/'' @ [115, 56448], ustr ''print(1)'')])
     \<in> set (collect_files (basename example_file) (dirname example_file) surrogate_dir_tree)"
    unfolding example_basename example_dirname surrogate_dir_collect by simp
  then show ?thesis
    using surrogate_dir_run by (intro conjI)
qed

text \<open>
  Claim C5, amended: for every run that writes its document in full (the output file
  is opened and every string written to it can be encoded as UTF-8) and every bucket \<open>(lang, rs)\<close> of the run, the document contains the banner of \<open>lang\<close>
  followed by the entries of the records of \<open>rs\<close> in bucket order and by the blank
  spacing; the entry of a record is its file name and a newline, its directory path
  and a newline, the fence with the lower-cased label (the letters \<open>A\<close> to \<open>Z\<close> of the
  label replaced by \<open>a\<close> to \<open>z\<close>) and a newline, the content as it is, a newline and the closing fence with two newlines, and a line of 80 dashes with
  two newlines.
\<close>

theorem bucket_rendered_in_order:
  assumes "complete_document (generate_codebase_markdown file e tree) = Some doc"
    and "(lang, rs) \<in> set (collect_files (basename file) (dirname file) tree)"
  shows "\<exists>pre post.
     doc =
       pre @ create_ascii_box lang 40 True
       @ concat (map (\<lambda>(filename, dirpath, content).
                        filename @ [nl] @ dirpath @ [nl] @ ustr ''```''
                        @ map (\<lambda>c. if 65 \<le> c \<and> c \<le> 90 then c + 32 else c) lang @ [nl]
                        @ content @ [nl] @ ustr ''```'' @ [nl, nl] @ replicate 80 45 @ [nl, nl]) rs)
       @ [nl, nl] @ post"
proof -
  let ?fbl = "collect_files (basename file) (dirname file) tree"
  let ?H = "create_ascii_box (ustr ''Project Codebase Overview'') 40 False
       @ ustr ''# '' @ basename (dirname file) @ ustr '' Codebase Manifest'' @ [nl, nl]
       @ replicate 40 9552 @ [nl, nl]"
  let ?sec = "\<lambda>lang. create_ascii_box lang 40 True
          @ concat (map (\<lambda>(filename, dirpath, content).
               filename @ [nl] @ dirpath @ [nl] @ ustr ''```'' @ lower lang @ [nl] @ content
               @ [nl] @ ustr ''```'' @ [nl, nl] @ replicate 80 45 @ [nl, nl]) (bucket_of ?fbl lang))
          @ [nl, nl]"
  have b: "bucket_of ?fbl lang = rs"
    using collect_files_distinct assms(2) by (rule bucket_of_member)
  from assms(2) have "fst (lang, rs) \<in> fst ` set ?fbl" by (rule imageI)
  then have "lang \<in> set (sorted_langs ?fbl)"
    unfolding sorted_langs_set by simp
  from concat_map_split [OF this, of ?sec] obtain pre post where
    "concat (map ?sec (sorted_langs ?fbl)) = pre @ ?sec lang @ post"
    by (elim exE)
  then have eq: "doc =
      (?H @ pre) @ create_ascii_box lang 40 True
       @ concat (map (\<lambda>(filename, dirpath, content).
                        filename @ [nl] @ dirpath @ [nl] @ ustr ''```'' @ lower lang @ [nl]
                        @ content @ [nl] @ ustr ''```'' @ [nl, nl] @ replicate 80 45 @ [nl, nl]) rs)
       @ [nl, nl] @ post"
    unfolding complete_document_text [OF assms(1)] concat_write_calls b
    by (simp only: append_assoc)
  show ?thesis
    by (rule exI [where x = "?H @ pre"], rule exI [where x = post])
       (rule eq [unfolded lower_alt])
qed

theorem bucket_rendered_in_order_witness:
  "\<exists>doc.
     complete_document (generate_codebase_markdown example_file example_env example_tree)
       = Some doc \<and>
     (ustr ''Python'', [(ustr ''main.py'', ustr ''/home/u/proj'', ustr ''print(1)'')])
       \<in> set (collect_files (basename example_file) (dirname example_file) example_tree) \<and>
     (\<exists>pre post.
       doc =
         pre @ create_ascii_box (ustr ''Python'') 40 True
         @ (ustr ''main.py'' @ [nl] @ ustr ''/home/u/proj'' @ [nl] @ ustr ''```python'' @ [nl]
            @ ustr ''print(1)'' @ [nl] @ ustr ''```'' @ [nl, nl] @ replicate 80 45 @ [nl, nl])
         @ [nl, nl] @ post)"
proof -
  from example_complete obtain doc where
    r: "complete_document (generate_codebase_markdown example_file example_env example_tree)
          = Some doc" ..
  have h: "(ustr ''Python'', [(ustr ''main.py'', ustr ''/home/u/proj'', ustr ''print(1)'')])
     \<in> set (collect_files (basename example_file) (dirname example_file) example_tree)"
    unfolding example_basename example_dirname example_collect_files by simp
  from bucket_rendered_in_order [OF r h] obtain pre post where
    "doc =
       pre @ create_ascii_box (ustr ''Python'') 40 True
       @ concat (map (\<lambda>(filename, dirpath, content).
                        filename @ [nl] @ dirpath @ [nl] @ ustr ''```''
                        @ map (\<lambda>c. if 65 \<le> c \<and> c \<le> 90 then c + 32 else c) (ustr ''Python'')
                        @ [nl] @ content @ [nl] @ ustr ''```'' @ [nl, nl] @ replicate 80 45
                        @ [nl, nl])
                     [(ustr ''main.py'', ustr ''/home/u/proj'', ustr ''print(1)'')])
       @ [nl, nl] @ post"
    by (elim exE)
  then have eq: "doc =
         pre @ create_ascii_box (ustr ''Python'') 40 True
         @ (ustr ''main.py'' @ [nl] @ ustr ''/home/u/proj'' @ [nl] @ ustr ''```python'' @ [nl]
            @ ustr ''print(1)'' @ [nl] @ ustr ''```'' @ [nl, nl] @ replicate 80 45 @ [nl, nl])
         @ [nl, nl] @ post"
    by simp
  show ?thesis
    by (rule exI [where x = doc], intro conjI r h, rule exI [where x = pre],
        rule exI [where x = post], rule eq)
qed


section \<open>A file that cannot be read\<close>

text \<open>
  Claim C6. An entry whose read fails leaves the dictionary as it is, and the run on a
  tree has the same outcome as the run on the tree without the entries whose read
  fails, in every environment: the same output path, document and console line, or
  the same error of opening, writing or printing. The other files are collected as
  before and nothing about the failed read is reported. The run is a total function of
  the tree, and none of its errors comes from a read.
\<close>

theorem unreadable_file_skipped:
  "process_file self dirpath (filename, None) files_by_lang = files_by_lang \<and>
   generate_codebase_markdown file e (readable_only tree) =
     generate_codebase_markdown file e tree"
  by (simp add: process_file_record_of record_of_unreadable generate_codebase_markdown_def
        collect_files_readable_only)

theorem unreadable_file_skipped_witness:
  "(ustr ''locked.rs'', None) \<in> set (files example_tree) \<and>
   ext_to_lang (lower (snd (splitext (ustr ''locked.rs'')))) = Some (ustr ''Rust'') \<and>
   generate_codebase_markdown example_file example_env (readable_only example_tree) =
     generate_codebase_markdown example_file example_env example_tree"
proof -
  have h: "(ustr ''locked.rs'', None) \<in> set (files example_tree)"
    by (simp add: example_tree_def)
  note t = unreadable_file_skipped [of undefined undefined undefined undefined
      example_file example_env example_tree]
  show ?thesis
    by (intro conjI h example_exts t [THEN conjunct2])
qed


section \<open>The second run\<close>

text \<open>
  Claim C7. Let the root directory list the entries \<open>fs\<close> before a run and \<open>fs'\<close> after
  it, where the two listings differ at most in entries named like the output file
  (the output file is new or overwritten, anywhere in the listing), and let the rest
  of the tree and the environment be unchanged. Then the second run has the same
  outcome as the first: the same output path, the same document and the same console
  line.
\<close>

theorem second_run_same_document:
  assumes "filter (\<lambda>e. fst e \<noteq> output_filename_of file) fs' =
           filter (\<lambda>e. fst e \<noteq> output_filename_of file) fs"
  shows "generate_codebase_markdown file e (Dir n fs' ds) =
         generate_codebase_markdown file e (Dir n fs ds)"
proof -
  have "collect_files self p (Dir n fs' ds) = collect_files self p (Dir n fs ds)" for self p
    unfolding collect_files_collected
    using collected_root_files [OF assms [unfolded output_filename_of_def]] by simp
  then show ?thesis by (simp add: generate_codebase_markdown_def)
qed

theorem second_run_same_document_witness:
  "\<exists>res.
     generate_codebase_markdown example_file example_env example_tree = Inr res \<and>
     filter (\<lambda>e. fst e \<noteq> output_filename_of example_file)
       (files example_tree @ [(output_filename_of example_file, Some (document res))]) =
     filter (\<lambda>e. fst e \<noteq> output_filename_of example_file) (files example_tree) \<and>
     generate_codebase_markdown example_file example_env
       (Dir (dname example_tree)
          (files example_tree @ [(output_filename_of example_file, Some (document res))])
          (subdirs example_tree)) = Inr res"
proof -
  from example_generate obtain res where
    r: "generate_codebase_markdown example_file example_env example_tree = Inr res" ..
  have h: "filter (\<lambda>e. fst e \<noteq> output_filename_of example_file)
       (files example_tree @ [(output_filename_of example_file, Some (document res))]) =
     filter (\<lambda>e. fst e \<noteq> output_filename_of example_file) (files example_tree)"
    by simp
  have "generate_codebase_markdown example_file example_env
       (Dir (dname example_tree)
          (files example_tree @ [(output_filename_of example_file, Some (document res))])
          (subdirs example_tree)) =
     generate_codebase_markdown example_file example_env
       (Dir (dname example_tree) (files example_tree) (subdirs example_tree))"
    using h by (rule second_run_same_document)
  then have "generate_codebase_markdown example_file example_env
       (Dir (dname example_tree)
          (files example_tree @ [(output_filename_of example_file, Some (document res))])
          (subdirs example_tree)) = Inr res"
    using r by simp
  with r h show ?thesis by blast
qed

end
